theory Spec2Isabelle
  imports Complex_Main "HOL-Library.Sublist"
begin

section \<open>COON: the browser compressor, the benchmark tables and the syntax check\<close>

text \<open>
  The development embeds four pieces of the repository:
  \<^item> \<^verbatim>\<open>docs/lib/coon-browser.ts\<close>: the abbreviation tables and \<^verbatim>\<open>compressDart\<close>;
  \<^item> \<^verbatim>\<open>benchmarks/src/constants.ts\<close>: \<^verbatim>\<open>WIDGET_ABBREVIATIONS\<close> and
    \<^verbatim>\<open>REVERSE_WIDGET_MAP\<close>;
  \<^item> the benchmark's answer normalisation: \<^verbatim>\<open>isValidCoonSyntax\<close>;
  \<^item> the benchmark's generator: \<^verbatim>\<open>getCompressor\<close> and the functions around it.

  A JavaScript string is a sequence of UTF-16 code units. It is modelled as a
  \<^typ>\<open>string\<close>, one \<^typ>\<open>char\<close> for each code unit, which covers the code units
  U+0000 to U+00FF; \<open>length\<close> is the \<^verbatim>\<open>.length\<close> of the source.
\<close>

subsection \<open>Abbreviation tables\<close>

text \<open>
  An object literal of type \<^verbatim>\<open>Record<string, string>\<close> is the list of its entries in
  the order they are written, which is the order \<^verbatim>\<open>Object.entries\<close> yields (no key
  of these tables is an integer index). The first eight tables are those of
  \<^verbatim>\<open>coon-browser.ts\<close> (long form first), the last is the benchmark's (short code first).
\<close>

definition DART_WIDGETS :: "(string \<times> string) list" where
  "DART_WIDGETS =
    [(''Scaffold'', ''S''), (''Column'', ''C''), (''Row'', ''R''), (''SafeArea'', ''A''),
     (''Padding'', ''P''), (''Text'', ''T''), (''AppBar'', ''B''), (''SizedBox'', ''Z''),
     (''TextField'', ''F''), (''ElevatedButton'', ''E''), (''TextStyle'', ''Y''),
     (''InputDecoration'', ''D''), (''OutlineInputBorder'', ''O''),
     (''TextEditingController'', ''X''), (''Container'', ''K''), (''Center'', ''N''),
     (''Expanded'', ''Ex''), (''ListView'', ''L''), (''GridView'', ''G''),
     (''Stack'', ''St''), (''Positioned'', ''Ps''), (''Card'', ''Cd''),
     (''IconButton'', ''Ib''), (''Icon'', ''Ic''), (''FloatingActionButton'', ''Fb''),
     (''CircularProgressIndicator'', ''Cp''), (''LinearProgressIndicator'', ''Lp''),
     (''Drawer'', ''Dr''), (''BottomNavigationBar'', ''Bn''), (''TabBar'', ''Tb''),
     (''TabBarView'', ''Tv''), (''Image'', ''Im''), (''Divider'', ''Dv''),
     (''Flexible'', ''Fl''), (''Align'', ''Al''), (''CustomScrollView'', ''Cv''),
     (''SingleChildScrollView'', ''Sv''), (''TextFormField'', ''Tf''),
     (''TextButton'', ''Bt'')]"

definition DART_PROPERTIES :: "(string \<times> string) list" where
  "DART_PROPERTIES =
    [(''appBar:'', ''a:''), (''body:'', ''b:''), (''child:'', ''c:''),
     (''children:'', ''h:''), (''title:'', ''t:''), (''controller:'', ''r:''),
     (''padding:'', ''p:''), (''onPressed:'', ''o:''), (''style:'', ''s:''),
     (''fontSize:'', ''z:''), (''fontWeight:'', ''w:''), (''color:'', ''l:''),
     (''decoration:'', ''d:''), (''labelText:'', ''L:''), (''hintText:'', ''H:''),
     (''border:'', ''B:''), (''height:'', ''e:''), (''width:'', ''W:''),
     (''obscureText:'', ''x:''), (''centerTitle:'', ''T:''),
     (''mainAxisAlignment:'', ''A:''), (''crossAxisAlignment:'', ''X:''),
     (''minimumSize:'', ''M:''), (''margin:'', ''m:''), (''alignment:'', ''n:''),
     (''backgroundColor:'', ''bg:''), (''onChanged:'', ''oc:''), (''builder:'', ''bl:''),
     (''mainAxisSize:'', ''ms:''), (''crossAxisSize:'', ''xs:'')]"

definition DART_KEYWORDS :: "(string \<times> string) list" where
  "DART_KEYWORDS =
    [(''class'', ''c:''), (''final'', ''f:''), (''extends'', ''<''), (''import'', ''im:''),
     (''return'', ''ret''), (''async'', ''asy''), (''await'', ''awt''),
     (''const'', ''cn:''), (''static'', ''st:''), (''void'', ''v:''),
     (''override'', ''ov:''), (''implements'', ''>''), (''with'', ''+''),
     (''Widget'', ''W''), (''BuildContext'', ''ctx''), (''true'', ''1''),
     (''false'', ''0''), (''null'', ''_'')]"

definition REACT_HOOKS :: "(string \<times> string) list" where
  "REACT_HOOKS =
    [(''useState'', ''us''), (''useEffect'', ''ue''), (''useContext'', ''uc''),
     (''useReducer'', ''ur''), (''useCallback'', ''ucb''), (''useMemo'', ''um''),
     (''useRef'', ''urf''), (''useImperativeHandle'', ''uih''),
     (''useLayoutEffect'', ''ule''), (''useDebugValue'', ''udv'')]"

definition JSX_ELEMENTS :: "(string \<times> string) list" where
  "JSX_ELEMENTS =
    [(''button'', ''B''), (''input'', ''I''), (''form'', ''F''), (''label'', ''L''),
     (''textarea'', ''TA''), (''select'', ''SL''), (''option'', ''O'')]"

definition REACT_COMPONENTS :: "(string \<times> string) list" where
  "REACT_COMPONENTS =
    [(''Fragment'', ''Fr''), (''StrictMode'', ''SM''), (''Suspense'', ''Su'')]"

definition REACT_PROPERTIES :: "(string \<times> string) list" where
  "REACT_PROPERTIES =
    [(''className'', ''cn''), (''onClick'', ''oc''), (''onChange'', ''och''),
     (''onSubmit'', ''os''), (''onFocus'', ''of''), (''onBlur'', ''ob''),
     (''onKeyPress'', ''okp''), (''onKeyDown'', ''okd''), (''onKeyUp'', ''oku''),
     (''onMouseEnter'', ''ome''), (''onMouseLeave'', ''oml''), (''children'', ''ch''),
     (''style'', ''st''), (''defaultValue'', ''dv''), (''checked'', ''chk''),
     (''disabled'', ''dis''), (''readOnly'', ''ro''), (''required'', ''req''),
     (''placeholder'', ''ph''), (''htmlFor'', ''hf''), (''tabIndex'', ''ti'')]"

definition JS_KEYWORDS :: "(string \<times> string) list" where
  "JS_KEYWORDS =
    [(''function'', ''fn:''), (''const'', ''cn:''), (''return'', ''ret''),
     (''export'', ''exp''), (''import'', ''imp''), (''default'', ''def''),
     (''async'', ''asn:''), (''await'', ''awt''), (''true'', ''1''), (''false'', ''0''),
     (''null'', ''nul''), (''undefined'', ''udf'')]"

definition WIDGET_ABBREVIATIONS :: "(string \<times> string) list" where
  "WIDGET_ABBREVIATIONS =
    [(''S'', ''Scaffold''), (''C'', ''Column''), (''R'', ''Row''), (''T'', ''Text''),
     (''K'', ''Container''), (''N'', ''Center''), (''P'', ''Padding''), (''B'', ''AppBar''),
     (''E'', ''ElevatedButton''), (''F'', ''TextField''), (''L'', ''ListView''),
     (''Z'', ''SizedBox''), (''Ic'', ''Icon''), (''Cd'', ''Card''), (''St'', ''Stack''),
     (''Wr'', ''Wrap''), (''Sw'', ''SingleChildScrollView''), (''Gi'', ''GestureDetector''),
     (''In'', ''InkWell''), (''An'', ''AnimatedContainer''), (''Tr'', ''Transform''),
     (''Op'', ''Opacity''), (''Cl'', ''ClipRRect''), (''Im'', ''Image''),
     (''Ci'', ''CircleAvatar''), (''Li'', ''ListTile''), (''Ds'', ''Dismissible''),
     (''Dr'', ''Drawer''), (''Tb'', ''TabBar''), (''Tv'', ''TabBarView''),
     (''Fa'', ''FloatingActionButton''), (''Ib'', ''IconButton''),
     (''Tb2'', ''TextButton''), (''Ob'', ''OutlinedButton''), (''Dd'', ''DropdownButton''),
     (''Sw2'', ''Switch''), (''Cb'', ''Checkbox''), (''Rd'', ''Radio''),
     (''Sl'', ''Slider''), (''Pr'', ''CircularProgressIndicator''),
     (''Pr2'', ''LinearProgressIndicator''), (''Dv'', ''Divider''), (''Sp'', ''Spacer''),
     (''Ex'', ''Expanded''), (''Fl'', ''Flexible''), (''Al'', ''Align''),
     (''Ps'', ''Positioned''), (''As'', ''AspectRatio''),
     (''Fr'', ''FractionallySizedBox''), (''Cn'', ''ConstrainedBox''),
     (''Sz'', ''SizedBox''), (''Ls'', ''LimitedBox''), (''Ov'', ''OverflowBox''),
     (''Gv'', ''GridView''), (''Pb'', ''PageView''), (''Nv'', ''Navigator''),
     (''Rt'', ''Route''), (''Mr'', ''MaterialPageRoute''), (''Al2'', ''AlertDialog''),
     (''Sd'', ''SimpleDialog''), (''Bs'', ''BottomSheet''), (''Sb'', ''SnackBar''),
     (''Pp'', ''PopupMenuButton''), (''Mn'', ''Menu'')]"

text \<open>
  \<^verbatim>\<open>Object.fromEntries\<close> writes the pairs one after the other into an empty object:
  a later pair with the same key overwrites the earlier one.
\<close>

definition fromEntries :: "('k \<times> 'v) list \<Rightarrow> ('k \<rightharpoonup> 'v)" where
  "fromEntries es = foldl (\<lambda>m (k, v). m(k \<mapsto> v)) Map.empty es"

text \<open>
  \<^verbatim>\<open>WIDGET_ABBREVIATIONS[k]\<close>. The keys of the literal are pairwise distinct
  (\<open>WIDGET_ABBREVIATIONS_keys_distinct\<close> below), so the first entry with the key is the
  only one.
\<close>

definition widgetAbbreviation :: "string \<Rightarrow> string option" where
  "widgetAbbreviation k = map_of WIDGET_ABBREVIATIONS k"

text \<open>
  \<^verbatim>\<open>Object.fromEntries(Object.entries(WIDGET_ABBREVIATIONS).map(([k, v]) => [v, k]))\<close>
\<close>

definition REVERSE_WIDGET_MAP :: "string \<Rightarrow> string option" where
  "REVERSE_WIDGET_MAP = fromEntries (map (\<lambda>(k, v). (v, k)) WIDGET_ABBREVIATIONS)"

text \<open>A table in which no key and no value occurs twice.\<close>

definition oneToOne :: "(string \<times> string) list \<Rightarrow> bool" where
  "oneToOne table = (distinct (map fst table) \<and> distinct (map snd table))"

subsection \<open>Character classes, \<^verbatim>\<open>trim\<close>, \<^verbatim>\<open>split\<close> and \<^verbatim>\<open>join\<close>\<close>

text \<open>
  The white space of \<^verbatim>\<open>\s\<close> and of \<^verbatim>\<open>String.prototype.trim\<close> (the same set:
  white space and line terminators), as far as it lies below U+0100: TAB, LF, VT, FF, CR,
  SPACE and NO-BREAK SPACE.
\<close>

definition isSpace :: "char \<Rightarrow> bool" where
  "isSpace c = (c \<in> {CHR 0x09, CHR 0x0A, CHR 0x0B, CHR 0x0C, CHR 0x0D, CHR '' '', CHR 0xA0})"

definition inRange :: "char \<Rightarrow> char \<Rightarrow> char \<Rightarrow> bool" where
  "inRange lo hi c = ((of_char lo :: nat) \<le> of_char c \<and> (of_char c :: nat) \<le> of_char hi)"

definition isUpper :: "char \<Rightarrow> bool" where
  "isUpper c = inRange CHR ''A'' CHR ''Z'' c"

definition isLower :: "char \<Rightarrow> bool" where
  "isLower c = inRange CHR ''a'' CHR ''z'' c"

definition isDigit :: "char \<Rightarrow> bool" where
  "isDigit c = inRange CHR ''0'' CHR ''9'' c"

text \<open>The class \<^verbatim>\<open>\w\<close>: letters, digits and the underscore.\<close>

definition isWord :: "char \<Rightarrow> bool" where
  "isWord c = (isUpper c \<or> isLower c \<or> isDigit c \<or> c = CHR ''_'')"

definition trim :: "string \<Rightarrow> string" where
  "trim s = rev (dropWhile isSpace (rev (dropWhile isSpace s)))"

text \<open>
  \<^verbatim>\<open>s.split("\n")\<close>: the pieces between the line feeds, at least one piece. (The last
  case of the inner \<open>case\<close> never arises: the result is never empty.)
\<close>

fun splitNl :: "string \<Rightarrow> string list" where
  "splitNl [] = [[]]"
| "splitNl (c # cs) =
     (if c = CHR 0x0A then [] # splitNl cs
      else (case splitNl cs of [] \<Rightarrow> [[c]] | l # ls \<Rightarrow> (c # l) # ls))"

text \<open>\<^verbatim>\<open>lines.join("\n")\<close>\<close>

fun joinNl :: "string list \<Rightarrow> string" where
  "joinNl [] = []"
| "joinNl [l] = l"
| "joinNl (l # ls) = l @ CHR 0x0A # joinNl ls"

subsection \<open>Global replacement by a regular expression\<close>

text \<open>
  A regular expression is modelled by what it does at one position of the subject: given
  the code unit before the position (\<open>None\<close> at the start of the string) and the rest of
  the string from the position on, it yields the length of its match there, or \<open>None\<close>.

  \<^verbatim>\<open>s.replace(re, r)\<close> with the flag \<^verbatim>\<open>g\<close> and a replacement \<open>r\<close> without
  \<^verbatim>\<open>$\<close>: the subject is scanned from the left; at the first position where the
  expression matches, the match is replaced and the scan goes on behind it; after an empty
  match one code unit is copied. Where nothing matches the code unit is copied.
\<close>

type_synonym regex = "char option \<Rightarrow> string \<Rightarrow> nat option"

function replaceAll :: "regex \<Rightarrow> string \<Rightarrow> char option \<Rightarrow> string \<Rightarrow> string" where
  "replaceAll re r prev [] = (case re prev [] of None \<Rightarrow> [] | Some n \<Rightarrow> r)"
| "replaceAll re r prev (c # cs) =
     (case re prev (c # cs) of
        None \<Rightarrow> c # replaceAll re r (Some c) cs
      | Some n \<Rightarrow>
          if n = 0 then r @ c # replaceAll re r (Some c) cs
          else r @ replaceAll re r (Some (last (take n (c # cs)))) (drop n (c # cs)))"
  by pat_completeness auto
termination
  by (relation "measure (\<lambda>(re, r, prev, s). length s)") auto

text \<open>
  The expressions of \<^verbatim>\<open>compressDart\<close> that have no \<^verbatim>\<open>\b\<close> are sequences of
  literal text, \<^verbatim>\<open>\s*\<close> and \<^verbatim>\<open>\s+\<close>. In each of them a run of white space is
  followed by a literal that does not start with white space, or ends the expression, so
  the greedy match is the only one and no backtracking is needed.
\<close>

datatype atom = Lit string | WsStar | WsPlus

fun matchAtoms :: "atom list \<Rightarrow> string \<Rightarrow> string option" where
  "matchAtoms [] s = Some s"
| "matchAtoms (Lit p # as) s =
     (if prefix p s then matchAtoms as (drop (length p) s) else None)"
| "matchAtoms (WsStar # as) s = matchAtoms as (dropWhile isSpace s)"
| "matchAtoms (WsPlus # as) s =
     (case s of [] \<Rightarrow> None
      | c # cs \<Rightarrow> if isSpace c then matchAtoms as (dropWhile isSpace cs) else None)"

definition atoms :: "atom list \<Rightarrow> regex" where
  "atoms as prev s = map_option (\<lambda>rest. length s - length rest) (matchAtoms as s)"

text \<open>
  \<^verbatim>\<open>\b\<close> holds between two positions of which exactly one carries a word character;
  beyond either end of the string there is none.
\<close>

definition wordChar :: "char option \<Rightarrow> bool" where
  "wordChar x = (case x of None \<Rightarrow> False | Some c \<Rightarrow> isWord c)"

definition headOf :: "string \<Rightarrow> char option" where
  "headOf s = (case s of [] \<Rightarrow> None | c # cs \<Rightarrow> Some c)"

definition boundary :: "char option \<Rightarrow> string \<Rightarrow> bool" where
  "boundary prev s = (wordChar prev \<noteq> wordChar (headOf s))"

text \<open>
  \<^verbatim>\<open>new RegExp(`\\b${full}\\b`, "g")\<close> for a key \<open>full\<close> without special characters
  (the widget names are letters only), and
  \<^verbatim>\<open>new RegExp(`\\b${escapeRegExp(full)}\\b`, "g")\<close> for any key: a word boundary, the
  text \<open>full\<close>, a word boundary.
\<close>

definition wordRegex :: "string \<Rightarrow> regex" where
  "wordRegex full prev s =
     (if boundary prev s \<and> prefix full s
         \<and> boundary (if full = [] then prev else Some (last full)) (drop (length full) s)
      then Some (length full) else None)"

text \<open>\<^verbatim>\<open>new RegExp(escapeRegExp(full), "g")\<close>: the text \<open>full\<close>, wherever it stands.\<close>

definition literalRegex :: "string \<Rightarrow> regex" where
  "literalRegex full = atoms [Lit full]"

subsection \<open>\<^verbatim>\<open>compressDart\<close>\<close>

text \<open>
  A JavaScript number that is either \<^verbatim>\<open>NaN\<close> or finite. The finite value is the exact
  quotient; the rounding of the double is not modelled.
\<close>

datatype jsnumber = NaN | Finite real

record CompressionResult =
  compressedCode :: string
  originalTokens :: nat
  compressedTokens :: nat
  percentageSaved :: jsnumber
  language :: string

text \<open>\<^verbatim>\<open>Math.ceil(text.length / 4)\<close>\<close>

definition estimateTokens :: "string \<Rightarrow> nat" where
  "estimateTokens text = (length text + 3) div 4"

text \<open>
  \<^verbatim>\<open>code.split("\n").map((line) => line.trim()).filter((line) => line.length > 0).join("\n")\<close>
\<close>

definition stripLines :: "string \<Rightarrow> string" where
  "stripLines code = joinNl (filter (\<lambda>line. length line > 0) (map trim (splitNl code)))"

text \<open>
  \<^verbatim>\<open>Object.entries(table).sort((a, b) => b[0].length - a[0].length)\<close>: longer keys
  first; the sort is stable, and so is \<open>sort_key\<close>.
\<close>

definition sortByLengthDesc :: "(string \<times> string) list \<Rightarrow> (string \<times> string) list" where
  "sortByLengthDesc es = sort_key (\<lambda>(full, abbrev). - int (length full)) es"

text \<open>
  \<^verbatim>\<open>for (const [full, abbrev] of table) compressed = compressed.replace(mk(full), abbrev)\<close>
\<close>

definition replaceEach ::
  "(string \<Rightarrow> regex) \<Rightarrow> (string \<times> string) list \<Rightarrow> string \<Rightarrow> string" where
  "replaceEach mk table s =
     foldl (\<lambda>acc (full, abbrev). replaceAll (mk full) abbrev None acc) s table"

text \<open>\<^verbatim>\<open>/\s*p\s*/g\<close> for a punctuation mark \<open>p\<close>.\<close>

definition spaced :: "string \<Rightarrow> regex" where
  "spaced p = atoms [WsStar, Lit p, WsStar]"

text \<open>
  The chain of ten replacements that ends \<^verbatim>\<open>compressDart\<close>: white space around
  \<^verbatim>\<open>: ( ) { } , ;\<close> goes, then \<^verbatim>\<open>/@ov:\s*/g\<close> is deleted, then
  \<^verbatim>\<open>/W\s+build\s*\(\s*ctx\s+context\s*\)/g\<close> becomes \<^verbatim>\<open>m:b\<close>, then every line
  feed is deleted.
\<close>

definition squeeze :: "string \<Rightarrow> string" where
  "squeeze s =
    (let s = replaceAll (spaced '':'') '':'' None s;
         s = replaceAll (spaced ''('') ''('' None s;
         s = replaceAll (spaced '')'') '')'' None s;
         s = replaceAll (spaced ''{'') ''{'' None s;
         s = replaceAll (spaced ''}'') ''}'' None s;
         s = replaceAll (spaced '','') '','' None s;
         s = replaceAll (spaced '';'') '';'' None s;
         s = replaceAll (atoms [Lit ''@ov:'', WsStar]) [] None s;
         s = replaceAll (atoms [Lit ''W'', WsPlus, Lit ''build'', WsStar, Lit ''('', WsStar,
                                Lit ''ctx'', WsPlus, Lit ''context'', WsStar, Lit '')''])
                        ''m:b'' None s
     in replaceAll (atoms [Lit [CHR 0x0A]]) [] None s)"

text \<open>
  \<^verbatim>\<open>Math.max(0, ((originalTokens - compressedTokens) / originalTokens) * 100)\<close>.
  With \<^verbatim>\<open>originalTokens = 0\<close> the quotient is \<^verbatim>\<open>0 / 0 = NaN\<close>, or
  \<^verbatim>\<open>-Infinity\<close> for a positive \<^verbatim>\<open>compressedTokens\<close>; \<^verbatim>\<open>Math.max(0, NaN)\<close> is
  \<^verbatim>\<open>NaN\<close>, \<^verbatim>\<open>Math.max(0, -Infinity)\<close> is \<^verbatim>\<open>0\<close>.
\<close>

definition percentage :: "nat \<Rightarrow> nat \<Rightarrow> jsnumber" where
  "percentage orig cmpr =
     (if orig = 0 then (if cmpr = 0 then NaN else Finite 0)
      else Finite (max 0 ((real orig - real cmpr) / real orig * 100)))"

definition compressDart :: "string \<Rightarrow> CompressionResult" where
  "compressDart code =
    (let compressed = stripLines code;
         compressed = replaceEach wordRegex (sortByLengthDesc DART_WIDGETS) compressed;
         compressed = replaceEach literalRegex DART_PROPERTIES compressed;
         compressed = replaceEach wordRegex (sortByLengthDesc DART_KEYWORDS) compressed;
         compressed = squeeze compressed
     in \<lparr> compressedCode = compressed,
          originalTokens = estimateTokens code,
          compressedTokens = estimateTokens compressed,
          percentageSaved = percentage (estimateTokens code) (estimateTokens compressed),
          language = ''dart'' \<rparr>)"

subsection \<open>\<^verbatim>\<open>isValidCoonSyntax\<close>\<close>

text \<open>
  The loop over the code units of the trimmed text. \<open>None\<close> is the \<^verbatim>\<open>return false\<close>
  inside the loop; otherwise the two counters after the last code unit.
\<close>

fun countLoop :: "int \<times> int \<Rightarrow> string \<Rightarrow> (int \<times> int) option" where
  "countLoop (braceCount, bracketCount) [] = Some (braceCount, bracketCount)"
| "countLoop (braceCount, bracketCount) (char # rest) =
     (let braceCount = (if char = CHR ''{'' then braceCount + 1 else braceCount);
          braceCount = (if char = CHR ''}'' then braceCount - 1 else braceCount);
          bracketCount = (if char = CHR ''['' then bracketCount + 1 else bracketCount);
          bracketCount = (if char = CHR '']'' then bracketCount - 1 else bracketCount)
      in if braceCount < 0 \<or> bracketCount < 0 then None
         else countLoop (braceCount, bracketCount) rest)"

text \<open>
  \<^verbatim>\<open>/^[A-Z][a-z]*\{.*\}$/s\<close>: a capital, lower-case letters, an opening brace, and
  the text ends with a closing brace behind it.
\<close>

definition widgetPattern :: "string \<Rightarrow> bool" where
  "widgetPattern s =
     (case s of [] \<Rightarrow> False
      | c # cs \<Rightarrow> isUpper c \<and>
          (case dropWhile isLower cs of [] \<Rightarrow> False
           | b # rest \<Rightarrow> b = CHR ''{'' \<and> rest \<noteq> [] \<and> last rest = CHR ''}''))"

text \<open>
  \<^verbatim>\<open>/^[A-Z]'[^']*'$/\<close> and \<^verbatim>\<open>/^[A-Z]"[^"]*"$/\<close>: a capital and a quoted text
  without the quote in it.
\<close>

definition quotedPattern :: "char \<Rightarrow> string \<Rightarrow> bool" where
  "quotedPattern q s =
     (case s of c # d # rest \<Rightarrow>
        isUpper c \<and> d = q \<and> rest \<noteq> [] \<and> last rest = q \<and> q \<notin> set (butlast rest)
      | _ \<Rightarrow> False)"

text \<open>\<^verbatim>\<open>/^c:\w+<\w+>/\<close>\<close>

definition classPattern :: "string \<Rightarrow> bool" where
  "classPattern s =
     (case s of c # d # rest \<Rightarrow>
        c = CHR ''c'' \<and> d = CHR '':'' \<and> takeWhile isWord rest \<noteq> [] \<and>
        (case dropWhile isWord rest of [] \<Rightarrow> False
         | lt # rest' \<Rightarrow> lt = CHR ''<'' \<and> takeWhile isWord rest' \<noteq> [] \<and>
             (case dropWhile isWord rest' of [] \<Rightarrow> False | gt # _ \<Rightarrow> gt = CHR ''>''))
      | _ \<Rightarrow> False)"

text \<open>\<^verbatim>\<open>/^[A-Z][a-z]*$/\<close>\<close>

definition barePattern :: "string \<Rightarrow> bool" where
  "barePattern s = (case s of [] \<Rightarrow> False | c # cs \<Rightarrow> isUpper c \<and> list_all isLower cs)"

definition validPatterns :: "(string \<Rightarrow> bool) list" where
  "validPatterns =
     [widgetPattern, quotedPattern (CHR 0x27), quotedPattern (CHR 0x22), classPattern, barePattern]"

text \<open>\<^verbatim>\<open>/^[A-Zc]/\<close>\<close>

definition startsUpperOrC :: "string \<Rightarrow> bool" where
  "startsUpperOrC s = (case s of [] \<Rightarrow> False | c # cs \<Rightarrow> isUpper c \<or> c = CHR ''c'')"

definition isValidCoonSyntax :: "string \<Rightarrow> bool" where
  "isValidCoonSyntax code =
     (let trimmed = trim code in
      case countLoop (0, 0) trimmed of
        None \<Rightarrow> False
      | Some (braceCount, bracketCount) \<Rightarrow>
          if braceCount \<noteq> 0 \<or> bracketCount \<noteq> 0 then False
          else if CHR '';'' \<notin> set trimmed \<and> CHR 0x0A \<notin> set trimmed then
            (let hasValidPattern = list_ex (\<lambda>p. p trimmed) validPatterns in
             if \<not> hasValidPattern \<and> length trimmed > 0 then
               (if \<not> startsUpperOrC trimmed then False else True)
             else True)
          else True)"

subsection \<open>The generator module of the benchmark\<close>

text \<open>
  The class \<^verbatim>\<open>Compressor\<close> and the enumeration \<^verbatim>\<open>CompressionStrategyType\<close> are
  imported from the package \<^verbatim>\<open>coon-format\<close>, whose code is not among the sources at
  hand. They are parameters of the model, and the model leaves them free to do what a
  JavaScript constructor and method can do. The enumeration is the type variable \<open>'s\<close>.
  A value of type \<open>'o\<close> is a reference to a compressor object. A value of type \<open>'w\<close> is
  everything outside the generator module that a call can read or write: the fields of the
  objects, the variables of the package, the clock. The constructor
  \<^verbatim>\<open>new Compressor({strategy, language})\<close> is a function \<open>construct\<close> of the two
  options and of \<open>'w\<close>, which gives the reference to the new object and the new \<open>'w\<close>.
  The method \<^verbatim>\<open>compress\<close> is a function \<open>compressWith\<close> of the object, the code,
  the optional strategy of the call and of \<open>'w\<close>, which gives a result of some type \<open>'r\<close>,
  from which \<^verbatim>\<open>.compressedCode\<close> is read, and the new \<open>'w\<close>.
\<close>

record ('s, 'o, 'r, 'w) Sdk =
  componentRef :: 's
  construct :: "'s \<Rightarrow> string \<Rightarrow> 'w \<Rightarrow> 'o \<times> 'w"
  compressWith :: "'o \<Rightarrow> string \<Rightarrow> 's option \<Rightarrow> 'w \<Rightarrow> 'r \<times> 'w"
  codeOf :: "'r \<Rightarrow> string"

text \<open>
  The state of the module is its variable \<^verbatim>\<open>let compressor: Compressor | null\<close>,
  initially \<^verbatim>\<open>null\<close>. Every function takes the variable and \<open>'w\<close> and returns them
  with its result.
\<close>

definition getCompressor ::
  "('s \<Rightarrow> string \<Rightarrow> 'w \<Rightarrow> 'o \<times> 'w) \<Rightarrow> 's \<Rightarrow> 'o option \<times> 'w \<Rightarrow> 'o \<times> 'o option \<times> 'w" where
  "getCompressor new COMPONENT_REF state =
     (case state of
        (None, w) \<Rightarrow> (let (compressor, w) = new COMPONENT_REF ''dart'' w
                      in (compressor, Some compressor, w))
      | (Some compressor, w) \<Rightarrow> (compressor, Some compressor, w))"

definition compressToCoon ::
  "('s, 'o, 'r, 'w) Sdk \<Rightarrow> string \<Rightarrow> 'o option \<times> 'w \<Rightarrow> string \<times> 'o option \<times> 'w" where
  "compressToCoon sdk dartCode state =
     (let (c, compressor, w) = getCompressor (construct sdk) (componentRef sdk) state;
          (result, w) = compressWith sdk c dartCode None w
      in (codeOf sdk result, compressor, w))"









subsection \<open>Notions used in the statements\<close>




text \<open>The literal text of a sequence of atoms.\<close>

definition litText :: "atom list \<Rightarrow> string" where
  "litText as = concat (map (\<lambda>a. case a of Lit p \<Rightarrow> p | WsStar \<Rightarrow> [] | WsPlus \<Rightarrow> []) as)"

text \<open>A code unit that is neither a brace nor a bracket.\<close>

definition plain :: "char \<Rightarrow> bool" where
  "plain c = (c \<notin> {CHR ''{'', CHR ''}'', CHR ''['', CHR '']''})"

definition occurrences :: "char \<Rightarrow> string \<Rightarrow> nat" where
  "occurrences c s = length (filter (\<lambda>x. x = c) s)"

text \<open>
  What the two counters of \<^verbatim>\<open>isValidCoonSyntax\<close> establish of a text, stated on the
  text: over all its code units, wherever they stand, there are as many \<^verbatim>\<open>}\<close> as
  \<^verbatim>\<open>{\<close> and as many \<^verbatim>\<open>]\<close> as \<^verbatim>\<open>[\<close>, and no prefix holds more \<^verbatim>\<open>}\<close> than
  \<^verbatim>\<open>{\<close> or more \<^verbatim>\<open>]\<close> than \<^verbatim>\<open>[\<close>. The two kinds are counted apart.
\<close>

definition countsBalanced :: "string \<Rightarrow> bool" where
  "countsBalanced s =
     (occurrences CHR ''{'' s = occurrences CHR ''}'' s \<and>
      occurrences CHR ''['' s = occurrences CHR '']'' s \<and>
      (\<forall>p \<in> set (prefixes s).
         occurrences CHR ''}'' p \<le> occurrences CHR ''{'' p \<and>
         occurrences CHR '']'' p \<le> occurrences CHR ''['' p))"

text \<open>
  Balanced in the sense of the compact grammar of the specification, which has the groups
  \<^verbatim>\<open>{...}\<close>, \<^verbatim>\<open>[...]\<close> and \<^verbatim>\<open>(...)\<close> and quoted string literals. This notion is
  written from the specification, not from the code. A closing mark closes the group opened
  last and not yet closed, which must be of its kind; at the end no group is open; the
  content of a string literal, from a quote to the next quote of the same kind, opens and
  closes nothing; a literal that is not terminated is not balanced. (The specification does
  not name the escape character of literals, so none is recognised.) The first argument is
  the stack of the groups open, the second the quote of the literal being read, if any.
\<close>

definition opener :: "char \<Rightarrow> char" where
  "opener c = (if c = CHR ''}'' then CHR ''{'' else if c = CHR '']'' then CHR ''['' else CHR ''('')"

fun nesting :: "char list \<Rightarrow> char option \<Rightarrow> string \<Rightarrow> bool" where
  "nesting stack None [] = (stack = [])"
| "nesting stack (Some q) [] = False"
| "nesting stack (Some q) (c # cs) =
     (if c = q then nesting stack None cs else nesting stack (Some q) cs)"
| "nesting stack None (c # cs) =
     (if c = CHR 0x22 \<or> c = CHR 0x27 then nesting stack (Some c) cs
      else if c \<in> set ''{[('' then nesting (c # stack) None cs
      else if c \<in> set ''}])'' then
        (case stack of [] \<Rightarrow> False | d # rest \<Rightarrow> d = opener c \<and> nesting rest None cs)
      else nesting stack None cs)"

definition grammarBalanced :: "string \<Rightarrow> bool" where
  "grammarBalanced s = nesting [] None s"
section \<open>The tables\<close>

lemma foldl_upd_map_of:
  "foldl (\<lambda>m (k, v). m(k \<mapsto> v)) m es = m ++ map_of (rev es)"
proof (induction es arbitrary: m)
  case Nil
  show ?case by simp
next
  case (Cons e es)
  obtain k v where e: "e = (k, v)" by (cases e)
  have "foldl (\<lambda>m (k, v). m(k \<mapsto> v)) m (e # es)
        = foldl (\<lambda>m (k, v). m(k \<mapsto> v)) (m(k \<mapsto> v)) es"
    by (simp add: e)
  also have "\<dots> = m(k \<mapsto> v) ++ map_of (rev es)" by (rule Cons.IH)
  also have "\<dots> = m ++ map_of (rev (e # es))"
    by (rule ext) (simp add: e map_add_def split: option.splits)
  finally show ?case .
qed

lemma fromEntries_map_of: "fromEntries es = map_of (rev es)"
  by (simp add: fromEntries_def foldl_upd_map_of)

lemma fromEntries_swap_inverse:
  assumes "distinct (map fst es)" and "v \<in> snd ` set es"
  shows "\<exists>k. fromEntries (map (\<lambda>(k, v). (v, k)) es) v = Some k \<and> map_of es k = Some v"
proof -
  let ?sw = "map (\<lambda>(k, v). (v, k)) es"
  from assms(2) have "v \<in> fst ` set (rev ?sw)" by force
  then obtain k where k: "map_of (rev ?sw) v = Some k"
    by (cases "map_of (rev ?sw) v") (simp_all add: map_of_eq_None_iff)
  then have "(v, k) \<in> set (rev ?sw)" by (rule map_of_SomeD)
  then have "(k, v) \<in> set es" by auto
  with assms(1) have "map_of es k = Some v" by simp
  with k show ?thesis by (auto simp: fromEntries_map_of)
qed

lemma WIDGET_ABBREVIATIONS_keys_distinct: "distinct (map fst WIDGET_ABBREVIATIONS)"
  by (simp add: WIDGET_ABBREVIATIONS_def)

text \<open>
  C9. For every long widget name \<open>v\<close> that is a value of \<^verbatim>\<open>WIDGET_ABBREVIATIONS\<close>,
  \<^verbatim>\<open>REVERSE_WIDGET_MAP[v]\<close> is defined, and looking its short code up in
  \<^verbatim>\<open>WIDGET_ABBREVIATIONS\<close> gives \<open>v\<close> back. This holds although two short codes
  (\<^verbatim>\<open>Z\<close> and \<^verbatim>\<open>Sz\<close>) stand for the same long name: the reverse map keeps the later.
\<close>

theorem reverse_widget_map_inverse:
  "\<forall>v \<in> snd ` set WIDGET_ABBREVIATIONS.
     \<exists>k. REVERSE_WIDGET_MAP v = Some k \<and> widgetAbbreviation k = Some v"
  unfolding REVERSE_WIDGET_MAP_def widgetAbbreviation_def
  using fromEntries_swap_inverse [OF WIDGET_ABBREVIATIONS_keys_distinct] by blast

theorem reverse_widget_map_inverse_witness:
  "''SizedBox'' \<in> snd ` set WIDGET_ABBREVIATIONS
   \<and> widgetAbbreviation ''Z'' = Some ''SizedBox''
   \<and> widgetAbbreviation ''Sz'' = Some ''SizedBox''
   \<and> (\<exists>k. REVERSE_WIDGET_MAP ''SizedBox'' = Some k \<and> widgetAbbreviation k = Some ''SizedBox'')"
proof -
  have m: "''SizedBox'' \<in> snd ` set WIDGET_ABBREVIATIONS"
    by (simp add: WIDGET_ABBREVIATIONS_def)
  have z: "widgetAbbreviation ''Z'' = Some ''SizedBox''"
    by (simp add: widgetAbbreviation_def WIDGET_ABBREVIATIONS_def)
  have sz: "widgetAbbreviation ''Sz'' = Some ''SizedBox''"
    by (simp add: widgetAbbreviation_def WIDGET_ABBREVIATIONS_def)
  from reverse_widget_map_inverse m
  have "\<exists>k. REVERSE_WIDGET_MAP ''SizedBox'' = Some k \<and> widgetAbbreviation k = Some ''SizedBox''"
    by (rule bspec)
  with m z sz show ?thesis by simp
qed

text \<open>
  C4, as the code has it. In each of the eight tables of \<^verbatim>\<open>coon-browser.ts\<close> the long
  forms are pairwise distinct and the short forms are pairwise distinct, so both directions
  are functions. In the benchmark's \<^verbatim>\<open>WIDGET_ABBREVIATIONS\<close> the short codes are
  pairwise distinct. (Nothing is said about prefixes of short forms, and nothing checks a
  table when it is loaded.)
\<close>

theorem shipped_tables_one_to_one:
  "oneToOne DART_WIDGETS \<and> oneToOne DART_PROPERTIES \<and> oneToOne DART_KEYWORDS
   \<and> oneToOne REACT_HOOKS \<and> oneToOne JSX_ELEMENTS \<and> oneToOne REACT_COMPONENTS
   \<and> oneToOne REACT_PROPERTIES \<and> oneToOne JS_KEYWORDS
   \<and> distinct (map fst WIDGET_ABBREVIATIONS)"
proof -
  have "oneToOne DART_WIDGETS" by (simp add: oneToOne_def DART_WIDGETS_def)
  moreover have "oneToOne DART_PROPERTIES" by (simp add: oneToOne_def DART_PROPERTIES_def)
  moreover have "oneToOne DART_KEYWORDS" by (simp add: oneToOne_def DART_KEYWORDS_def)
  moreover have "oneToOne REACT_HOOKS" by (simp add: oneToOne_def REACT_HOOKS_def)
  moreover have "oneToOne JSX_ELEMENTS" by (simp add: oneToOne_def JSX_ELEMENTS_def)
  moreover have "oneToOne REACT_COMPONENTS" by (simp add: oneToOne_def REACT_COMPONENTS_def)
  moreover have "oneToOne REACT_PROPERTIES" by (simp add: oneToOne_def REACT_PROPERTIES_def)
  moreover have "oneToOne JS_KEYWORDS" by (simp add: oneToOne_def JS_KEYWORDS_def)
  ultimately show ?thesis using WIDGET_ABBREVIATIONS_keys_distinct by simp
qed

text \<open>
  Against C4 as stated: in \<^verbatim>\<open>WIDGET_ABBREVIATIONS\<close> the long form \<^verbatim>\<open>SizedBox\<close> has
  the two short forms \<^verbatim>\<open>Z\<close> and \<^verbatim>\<open>Sz\<close>, and in \<^verbatim>\<open>DART_WIDGETS\<close> the short form
  \<^verbatim>\<open>S\<close> of \<^verbatim>\<open>Scaffold\<close> is a proper prefix of the short form \<^verbatim>\<open>St\<close> of
  \<^verbatim>\<open>Stack\<close>.
\<close>

theorem shipped_tables_collisions:
  "(''Z'', ''SizedBox'') \<in> set WIDGET_ABBREVIATIONS
   \<and> (''Sz'', ''SizedBox'') \<in> set WIDGET_ABBREVIATIONS
   \<and> ''Z'' \<noteq> ''Sz''
   \<and> \<not> oneToOne WIDGET_ABBREVIATIONS
   \<and> (''Scaffold'', ''S'') \<in> set DART_WIDGETS
   \<and> (''Stack'', ''St'') \<in> set DART_WIDGETS
   \<and> strict_prefix ''S'' ''St''"
proof -
  have "\<not> distinct (map snd WIDGET_ABBREVIATIONS)"
    by (simp add: WIDGET_ABBREVIATIONS_def)
  then have "\<not> oneToOne WIDGET_ABBREVIATIONS" by (simp add: oneToOne_def)
  moreover have "(''Z'', ''SizedBox'') \<in> set WIDGET_ABBREVIATIONS"
    and "(''Sz'', ''SizedBox'') \<in> set WIDGET_ABBREVIATIONS"
    by (simp_all add: WIDGET_ABBREVIATIONS_def)
  moreover have "(''Scaffold'', ''S'') \<in> set DART_WIDGETS"
    and "(''Stack'', ''St'') \<in> set DART_WIDGETS"
    by (simp_all add: DART_WIDGETS_def)
  moreover have "strict_prefix ''S'' ''St''" by (simp add: strict_prefix_def)
  ultimately show ?thesis by simp
qed

section \<open>The replacement passes\<close>

lemma compressedCode_compressDart:
  "compressedCode (compressDart code) =
     squeeze (replaceEach wordRegex (sortByLengthDesc DART_KEYWORDS)
       (replaceEach literalRegex DART_PROPERTIES
         (replaceEach wordRegex (sortByLengthDesc DART_WIDGETS) (stripLines code))))"
  by (simp add: compressDart_def Let_def)

lemma set_sortByLengthDesc: "set (sortByLengthDesc es) = set es"
  by (simp add: sortByLengthDesc_def)


lemma replaceEach_fixed:
  assumes "\<And>full abbrev. (full, abbrev) \<in> set table \<Longrightarrow> replaceAll (mk full) abbrev None s = s"
  shows "replaceEach mk table s = s"
  using assms unfolding replaceEach_def
proof (induction table)
  case Nil
  show ?case by simp
next
  case (Cons e table)
  obtain full abbrev where e: "e = (full, abbrev)" by (cases e)
  have "replaceAll (mk full) abbrev None s = s" by (simp add: Cons.prems e)
  moreover have "foldl (\<lambda>acc (full, abbrev). replaceAll (mk full) abbrev None acc) s table = s"
    by (rule Cons.IH) (simp add: Cons.prems)
  ultimately show ?case by (simp add: e)
qed

subsection \<open>What a match consumes\<close>

lemma matchAtoms_consumed:
  "matchAtoms as s = Some rest \<Longrightarrow>
     \<exists>m. s = m @ rest \<and> filter (\<lambda>c. \<not> isSpace c) m = filter (\<lambda>c. \<not> isSpace c) (litText as)"
proof (induction as s rule: matchAtoms.induct)
  case (1 s)
  then show ?case by (simp add: litText_def)
next
  case (2 p as s)
  from "2.prems" have pre: "prefix p s" and m: "matchAtoms as (drop (length p) s) = Some rest"
    by (auto split: if_splits)
  from "2.IH" [OF pre m] obtain m' where
    m': "drop (length p) s = m' @ rest"
        "filter (\<lambda>c. \<not> isSpace c) m' = filter (\<lambda>c. \<not> isSpace c) (litText as)" by blast
  from pre have "s = p @ drop (length p) s" by (auto simp: prefix_def)
  then have "s = (p @ m') @ rest" by (simp only: m'(1) append_assoc)
  moreover have "filter (\<lambda>c. \<not> isSpace c) (p @ m') = filter (\<lambda>c. \<not> isSpace c) (litText (Lit p # as))"
    by (simp add: litText_def m'(2))
  ultimately show ?case by blast
next
  case (3 as s)
  from "3.prems" have m: "matchAtoms as (dropWhile isSpace s) = Some rest" by simp
  from "3.IH" [OF m] obtain m' where
    m': "dropWhile isSpace s = m' @ rest"
        "filter (\<lambda>c. \<not> isSpace c) m' = filter (\<lambda>c. \<not> isSpace c) (litText as)" by blast
  have "s = takeWhile isSpace s @ dropWhile isSpace s" by simp
  then have "s = (takeWhile isSpace s @ m') @ rest" by (simp only: m'(1) append_assoc)
  moreover have "filter (\<lambda>c. \<not> isSpace c) (takeWhile isSpace s) = []"
    by (auto simp: filter_empty_conv dest: set_takeWhileD)
  then have "filter (\<lambda>c. \<not> isSpace c) (takeWhile isSpace s @ m')
             = filter (\<lambda>c. \<not> isSpace c) (litText (WsStar # as))"
    by (simp add: litText_def m'(2))
  ultimately show ?case by blast
next
  case (4 as s)
  from "4.prems" obtain c cs where s: "s = c # cs" and c: "isSpace c"
    and m: "matchAtoms as (dropWhile isSpace cs) = Some rest"
    by (auto split: list.splits if_splits)
  from "4.IH" [OF s c m] obtain m' where
    m': "dropWhile isSpace cs = m' @ rest"
        "filter (\<lambda>c. \<not> isSpace c) m' = filter (\<lambda>c. \<not> isSpace c) (litText as)" by blast
  have "c # cs = c # takeWhile isSpace cs @ dropWhile isSpace cs" by simp
  then have "s = (c # takeWhile isSpace cs @ m') @ rest"
    by (simp only: s m'(1) append_assoc append_Cons)
  moreover have "filter (\<lambda>c. \<not> isSpace c) (takeWhile isSpace cs) = []"
    by (auto simp: filter_empty_conv dest: set_takeWhileD)
  then have "filter (\<lambda>c. \<not> isSpace c) (c # takeWhile isSpace cs @ m')
             = filter (\<lambda>c. \<not> isSpace c) (litText (WsPlus # as))"
    by (simp add: litText_def m'(2) c)
  ultimately show ?case by blast
qed

lemma matchAtoms_spaced:
  "matchAtoms [WsStar, Lit [p], WsStar] s =
     (case dropWhile isSpace s of
        [] \<Rightarrow> None
      | x # rest \<Rightarrow> if x = p then Some (dropWhile isSpace rest) else None)"
  by (cases "dropWhile isSpace s") (simp_all del: dropWhile_eq_Nil_conv)



subsection \<open>Characters that every pass leaves in place\<close>








lemma replaceAll_delete_char:
  "replaceAll (atoms [Lit [x]]) [] prev s = filter (\<lambda>c. c \<noteq> x) s"
  by (induction s arbitrary: prev) (auto simp: atoms_def)

subsection \<open>Code units that pass through\<close>














text \<open>
  C10. For every input, the compressed document holds no line feed (U+000A), also when a
  string literal of the input holds one.
\<close>

theorem compressDart_single_line:
  "CHR 0x0A \<notin> set (compressedCode (compressDart code))"
  by (simp add: compressedCode_compressDart squeeze_def Let_def replaceAll_delete_char)

subsection \<open>No step makes the text longer\<close>











lemma length_dropWhile_space: "length (dropWhile isSpace s) \<le> length s"
  by (rule length_dropWhile_le)








subsection \<open>Passes that change nothing\<close>

lemma replaceAll_fixed:
  assumes "\<And>prev t n. suffix t s \<Longrightarrow> re prev t = Some n \<Longrightarrow> take n t = r"
  shows "replaceAll re r prev s = s"
  using assms
proof (induction re r prev s rule: replaceAll.induct)
  case (1 re r prev)
  show ?case
  proof (cases "re prev []")
    case None
    then show ?thesis by simp
  next
    case (Some n)
    from "1.prems" [OF suffix_order.refl Some] Some show ?thesis by simp
  qed
next
  case (2 re r prev c cs)
  have tail: "suffix t (c # cs)" if "suffix t cs" for t
    using that by (rule suffix_ConsI)
  show ?case
  proof (cases "re prev (c # cs)")
    case None
    have "replaceAll re r (Some c) cs = cs"
      by (rule "2.IH"(1) [OF None]) (rule "2.prems" [OF tail])
    with None show ?thesis by simp
  next
    case (Some n)
    note r = "2.prems" [OF suffix_order.refl Some]
    show ?thesis
    proof (cases "n = 0")
      case True
      have "replaceAll re r (Some c) cs = cs"
        by (rule "2.IH"(2) [OF Some True]) (rule "2.prems" [OF tail])
      with Some True r show ?thesis by simp
    next
      case False
      have "replaceAll re r (Some (last (take n (c # cs)))) (drop n (c # cs)) = drop n (c # cs)"
      proof (rule "2.IH"(3) [OF Some False])
        fix prev' t m
        assume "suffix t (drop n (c # cs))" and m: "re prev' t = Some m"
        then have "suffix t (c # cs)" by (meson suffix_drop suffix_order.trans)
        then show "take m t = r" using m by (rule "2.prems")
      qed
      with Some False r [symmetric] show ?thesis by simp
    qed
  qed
qed


lemma replaceAll_lead_absent:
  assumes "\<not> sublist full s"
  shows "replaceAll (atoms (Lit full # as)) r prev s = s"
proof (rule replaceAll_fixed)
  fix prev' t n
  assume "suffix t s" and "atoms (Lit full # as) prev' t = Some n"
  then have "suffix t s \<and> prefix full t" by (auto simp: atoms_def split: if_splits)
  then have "sublist full s" unfolding sublist_altdef' by blast
  with assms show "take n t = r" by simp
qed

lemma dropWhile_no_space: "\<forall>c \<in> set s. \<not> isSpace c \<Longrightarrow> dropWhile isSpace s = s"
  by (cases s) simp_all

lemma suffix_no_space:
  assumes "\<forall>c \<in> set s. \<not> isSpace c" and "suffix t s"
  shows "\<forall>c \<in> set t. \<not> isSpace c"
  using assms by (auto simp: suffix_def)

lemma replaceAll_spaced_dense:
  assumes "\<forall>c \<in> set s. \<not> isSpace c"
  shows "replaceAll (spaced [p]) [p] prev s = s"
proof (rule replaceAll_fixed)
  fix prev' t n
  assume t: "suffix t s" and m: "spaced [p] prev' t = Some n"
  note dense = suffix_no_space [OF assms t]
  from m obtain rest where rest: "matchAtoms [WsStar, Lit [p], WsStar] t = Some rest"
    and n: "n = length t - length rest"
    by (auto simp: spaced_def atoms_def)
  from rest dropWhile_no_space [OF dense] obtain u where u: "t = p # u" "rest = dropWhile isSpace u"
    by (cases t) (auto simp: matchAtoms_spaced simp del: matchAtoms.simps split: if_splits)
  from dense u(1) have "\<forall>c \<in> set u. \<not> isSpace c" by simp
  with u(2) have "rest = u" by (simp add: dropWhile_no_space)
  with u(1) n show "take n t = [p]" by simp
qed

lemma replaceAll_build_dense:
  assumes "\<forall>c \<in> set s. \<not> isSpace c"
  shows "replaceAll (atoms (Lit [w] # WsPlus # as)) r prev s = s"
proof (rule replaceAll_fixed)
  fix prev' t n
  assume t: "suffix t s" and m: "atoms (Lit [w] # WsPlus # as) prev' t = Some n"
  note dense = suffix_no_space [OF assms t]
  from m obtain u where "t = w # u" and "matchAtoms (WsPlus # as) u \<noteq> None"
    by (cases t) (auto simp: atoms_def split: if_splits)
  with dense have False by (cases u) auto
  then show "take n t = r" ..
qed

lemma squeeze_dense:
  assumes "\<forall>c \<in> set s. \<not> isSpace c" and "\<not> sublist ''@ov:'' s"
  shows "squeeze s = s"
proof -
  have "CHR 0x0A \<notin> set s" using assms(1) by (auto simp: isSpace_def)
  then have "filter (\<lambda>c. c \<noteq> CHR 0x0A) s = s" by (induction s) auto
  then show ?thesis
    by (simp add: squeeze_def Let_def replaceAll_spaced_dense [OF assms(1)]
          replaceAll_lead_absent [OF assms(2)] replaceAll_build_dense [OF assms(1)]
          replaceAll_delete_char)
qed

lemma splitNl_single: "CHR 0x0A \<notin> set s \<Longrightarrow> splitNl s = [s]"
  by (induction s) auto

lemma stripLines_dense:
  assumes "\<forall>c \<in> set s. \<not> isSpace c"
  shows "stripLines s = s"
proof -
  have "CHR 0x0A \<notin> set s" using assms by (auto simp: isSpace_def)
  then have "splitNl s = [s]" by (rule splitNl_single)
  moreover have "trim s = s"
  proof -
    have "\<forall>c \<in> set (rev s). \<not> isSpace c" using assms by simp
    then have "dropWhile isSpace (rev s) = rev s" by (rule dropWhile_no_space)
    then show ?thesis by (simp add: trim_def dropWhile_no_space [OF assms])
  qed
  ultimately show ?thesis by (cases s) (simp_all add: stripLines_def)
qed



section \<open>Evaluating \<^verbatim>\<open>compressDart\<close> on a given text\<close>

lemma replaceAll_prev_irrelevant:
  assumes "\<And>p p' t. re p t = re p' t"
  shows "replaceAll re r prev s = replaceAll re r prev' s"
  using assms
proof (induction re r prev s arbitrary: prev' rule: replaceAll.induct)
  case (1 re r prev)
  from "1.prems" [of prev "[]" prev'] show ?case by simp
next
  case (2 re r prev c cs)
  note same = "2.prems" [of prev "c # cs" prev']
  show ?case
  proof (cases "re prev (c # cs)")
    case None
    with same "2.IH"(1) [OF None "2.prems", of "Some c"] show ?thesis by simp
  next
    case (Some n)
    show ?thesis
    proof (cases "n = 0")
      case True
      with Some same "2.IH"(2) [OF Some True "2.prems", of "Some c"] show ?thesis by simp
    next
      case False
      with Some same
        "2.IH"(3) [OF Some False "2.prems", of "Some (last (take n (c # cs)))"]
      show ?thesis by simp
    qed
  qed
qed

lemma replaceAll_atoms_prev: "replaceAll (atoms as) r prev s = replaceAll (atoms as) r None s"
  by (rule replaceAll_prev_irrelevant) (simp add: atoms_def)

declare replaceAll.simps [simp del]

lemma replaceAll_atoms_Nil:
  "replaceAll (atoms as) r prev [] = (case matchAtoms as [] of None \<Rightarrow> [] | Some rest \<Rightarrow> r)"
  by (simp add: replaceAll.simps atoms_def split: option.splits)

lemma replaceAll_atoms_Cons:
  "replaceAll (atoms as) r prev (c # cs) =
     (case matchAtoms as (c # cs) of
        None \<Rightarrow> c # replaceAll (atoms as) r None cs
      | Some rest \<Rightarrow>
          if length rest = Suc (length cs) then r @ c # replaceAll (atoms as) r None cs
          else r @ replaceAll (atoms as) r None rest)"
proof (cases "matchAtoms as (c # cs)")
  case None
  then have "atoms as prev (c # cs) = None" by (simp add: atoms_def)
  then show ?thesis
    using None replaceAll_atoms_prev [of as r "Some c" cs] by (simp add: replaceAll.simps)
next
  case (Some rest)
  from matchAtoms_consumed [OF Some] obtain m where m: "c # cs = m @ rest" by blast
  have n: "atoms as prev (c # cs) = Some (length m)"
    using Some by (simp add: atoms_def m)
  have len: "Suc (length cs) = length m + length rest"
    using arg_cong [OF m, of length] by simp
  have d: "drop (length m) (c # cs) = rest" by (simp add: m)
  show ?thesis
  proof (cases "length m = 0")
    case True
    with len n Some replaceAll_atoms_prev [of as r "Some c" cs] show ?thesis
      by (simp add: replaceAll.simps)
  next
    case False
    with len have "length rest \<noteq> Suc (length cs)" by simp
    with False n Some d
      replaceAll_atoms_prev [of as r "Some (last (take (length m) (c # cs)))" rest]
    show ?thesis by (simp add: replaceAll.simps)
  qed
qed

lemma replaceAll_lead_Nil: "replaceAll (atoms (Lit (f # fs) # as)) r prev [] = []"
  by (simp add: replaceAll_atoms_Nil)

lemma replaceAll_lead_Cons:
  "replaceAll (atoms (Lit (f # fs) # as)) r prev (c # cs) =
     (if c = f then
        (case matchAtoms (Lit fs # as) cs of
           None \<Rightarrow> c # replaceAll (atoms (Lit (f # fs) # as)) r None cs
         | Some rest \<Rightarrow> r @ replaceAll (atoms (Lit (f # fs) # as)) r None rest)
      else c # replaceAll (atoms (Lit (f # fs) # as)) r None cs)"
proof (cases "c = f \<and> prefix fs cs")
  case False
  then show ?thesis by (auto simp: replaceAll_atoms_Cons)
next
  case True
  show ?thesis
  proof (cases "matchAtoms as (drop (length fs) cs)")
    case None
    with True show ?thesis by (simp add: replaceAll_atoms_Cons)
  next
    case (Some rest)
    from matchAtoms_consumed [OF Some] obtain m where "drop (length fs) cs = m @ rest" by blast
    then have "length (drop (length fs) cs) = length m + length rest" by simp
    then have "length rest \<noteq> Suc (length cs)" by simp
    with True Some show ?thesis by (simp add: replaceAll_atoms_Cons)
  qed
qed

lemma replaceAll_literal_Nil: "replaceAll (literalRegex (f # fs)) r prev [] = []"
  by (simp add: literalRegex_def replaceAll_atoms_Nil)

lemma replaceAll_literal_Cons:
  "replaceAll (literalRegex (f # fs)) r prev (c # cs) =
     (if c = f then
        (if prefix fs cs then r @ replaceAll (literalRegex (f # fs)) r None (drop (length fs) cs)
         else c # replaceAll (literalRegex (f # fs)) r None cs)
      else c # replaceAll (literalRegex (f # fs)) r None cs)"
  unfolding literalRegex_def by (simp add: replaceAll_lead_Cons)

lemma replaceAll_spaced_Nil: "replaceAll (spaced [p]) r prev [] = []"
  by (simp add: spaced_def replaceAll_atoms_Nil)

lemma replaceAll_spaced_Cons:
  assumes "\<not> isSpace p"
  shows "replaceAll (spaced [p]) r prev (c # cs) =
     (if c = p then r @ replaceAll (spaced [p]) r None (dropWhile isSpace cs)
      else if isSpace c then
        (case dropWhile isSpace cs of
           [] \<Rightarrow> c # replaceAll (spaced [p]) r None cs
         | x # rest \<Rightarrow>
             if x = p then r @ replaceAll (spaced [p]) r None (dropWhile isSpace rest)
             else c # replaceAll (spaced [p]) r None cs)
      else c # replaceAll (spaced [p]) r None cs)"
proof -
  have short: "length (dropWhile isSpace t) \<noteq> Suc (length t)" for t :: string
    using length_dropWhile_le [of isSpace t] by simp
  have shorter: "length (dropWhile isSpace rest) \<noteq> Suc (length cs)"
    if "dropWhile isSpace cs = x # rest" for x rest
  proof -
    have "length (dropWhile isSpace rest) \<le> length rest" by (rule length_dropWhile_le)
    moreover have "length (x # rest) \<le> length cs"
      using length_dropWhile_le [of isSpace cs] that by simp
    ultimately show ?thesis by simp
  qed
  consider (hit) "c = p" | (space) "c \<noteq> p" "isSpace c" | (other) "c \<noteq> p" "\<not> isSpace c"
    by blast
  then show ?thesis
  proof cases
    case hit
    with assms show ?thesis
      by (simp add: spaced_def replaceAll_atoms_Cons matchAtoms_spaced short
            del: matchAtoms.simps)
  next
    case space
    show ?thesis
    proof (cases "dropWhile isSpace cs")
      case Nil
      with space show ?thesis
        by (simp add: spaced_def replaceAll_atoms_Cons matchAtoms_spaced
              del: matchAtoms.simps dropWhile_eq_Nil_conv)
    next
      case (Cons x rest)
      with space shorter [OF Cons] show ?thesis
        by (simp add: spaced_def replaceAll_atoms_Cons matchAtoms_spaced del: matchAtoms.simps)
    qed
  next
    case other
    then show ?thesis
      by (simp add: spaced_def replaceAll_atoms_Cons matchAtoms_spaced del: matchAtoms.simps)
  qed
qed

lemma replaceAll_word_Nil: "replaceAll (wordRegex (f # fs)) r prev [] = []"
  by (simp add: replaceAll.simps wordRegex_def)

lemma replaceAll_word_Cons:
  "replaceAll (wordRegex (f # fs)) r prev (c # cs) =
     (if c = f then
        (if prefix fs cs then
           (if boundary prev (c # cs) \<and> boundary (Some (last (f # fs))) (drop (length fs) cs)
            then r @ replaceAll (wordRegex (f # fs)) r (Some (last (f # fs))) (drop (length fs) cs)
            else c # replaceAll (wordRegex (f # fs)) r (Some c) cs)
         else c # replaceAll (wordRegex (f # fs)) r (Some c) cs)
      else c # replaceAll (wordRegex (f # fs)) r (Some c) cs)"
proof (cases "c = f \<and> prefix fs cs")
  case False
  then show ?thesis by (auto simp: replaceAll.simps wordRegex_def)
next
  case True
  then obtain t where t: "cs = fs @ t" by (auto simp: prefix_def)
  have "last (take (Suc (length fs)) (f # fs @ t)) = last (f # fs)" by simp
  with True t show ?thesis by (simp add: replaceAll.simps wordRegex_def)
qed

text \<open>The two sorted tables, computed once.\<close>

lemma sortedWidgets:
  "sortByLengthDesc DART_WIDGETS =
     [(''CircularProgressIndicator'', ''Cp''), (''LinearProgressIndicator'', ''Lp''),
      (''TextEditingController'', ''X''), (''SingleChildScrollView'', ''Sv''),
      (''FloatingActionButton'', ''Fb''), (''BottomNavigationBar'', ''Bn''),
      (''OutlineInputBorder'', ''O''), (''CustomScrollView'', ''Cv''),
      (''InputDecoration'', ''D''), (''ElevatedButton'', ''E''), (''TextFormField'', ''Tf''),
      (''Positioned'', ''Ps''), (''IconButton'', ''Ib''), (''TabBarView'', ''Tv''),
      (''TextButton'', ''Bt''), (''TextField'', ''F''), (''TextStyle'', ''Y''),
      (''Container'', ''K''), (''Scaffold'', ''S''), (''SafeArea'', ''A''),
      (''SizedBox'', ''Z''), (''Expanded'', ''Ex''), (''ListView'', ''L''),
      (''GridView'', ''G''), (''Flexible'', ''Fl''), (''Padding'', ''P''),
      (''Divider'', ''Dv''), (''Column'', ''C''), (''AppBar'', ''B''), (''Center'', ''N''),
      (''Drawer'', ''Dr''), (''TabBar'', ''Tb''), (''Stack'', ''St''), (''Image'', ''Im''),
      (''Align'', ''Al''), (''Text'', ''T''), (''Card'', ''Cd''), (''Icon'', ''Ic''),
      (''Row'', ''R'')]"
  unfolding sortByLengthDesc_def DART_WIDGETS_def by simp

lemma sortedKeywords:
  "sortByLengthDesc DART_KEYWORDS =
     [(''BuildContext'', ''ctx''), (''implements'', ''>''), (''override'', ''ov:''),
      (''extends'', ''<''), (''import'', ''im:''), (''return'', ''ret''),
      (''static'', ''st:''), (''Widget'', ''W''), (''class'', ''c:''), (''final'', ''f:''),
      (''async'', ''asy''), (''await'', ''awt''), (''const'', ''cn:''), (''false'', ''0''),
      (''void'', ''v:''), (''with'', ''+''), (''true'', ''1''), (''null'', ''_'')]"
  unfolding sortByLengthDesc_def DART_KEYWORDS_def by simp

lemma punctuation_not_space:
  "\<not> isSpace CHR '':''" "\<not> isSpace CHR ''(''" "\<not> isSpace CHR '')''" "\<not> isSpace CHR ''{''"
  "\<not> isSpace CHR ''}''" "\<not> isSpace CHR '',''" "\<not> isSpace CHR '';''"
  by (simp_all add: isSpace_def)

lemmas spaced_steps =
  replaceAll_spaced_Cons [OF punctuation_not_space(1)]
  replaceAll_spaced_Cons [OF punctuation_not_space(2)]
  replaceAll_spaced_Cons [OF punctuation_not_space(3)]
  replaceAll_spaced_Cons [OF punctuation_not_space(4)]
  replaceAll_spaced_Cons [OF punctuation_not_space(5)]
  replaceAll_spaced_Cons [OF punctuation_not_space(6)]
  replaceAll_spaced_Cons [OF punctuation_not_space(7)]

lemmas char_classes = isSpace_def isWord_def isUpper_def isLower_def isDigit_def inRange_def
  boundary_def wordChar_def headOf_def

lemmas run_passes = compressedCode_compressDart sortedWidgets sortedKeywords DART_PROPERTIES_def
  replaceEach_def squeeze_def Let_def stripLines_def trim_def
  replaceAll_word_Nil replaceAll_word_Cons replaceAll_literal_Nil replaceAll_literal_Cons
  replaceAll_spaced_Nil spaced_steps replaceAll_lead_Nil replaceAll_lead_Cons
  replaceAll_delete_char char_classes

section \<open>What \<^verbatim>\<open>compressDart\<close> does to given texts\<close>

text \<open>
  C1: what the code does on the sources \<^verbatim>\<open>x = true;\<close> and \<^verbatim>\<open>x = 1;\<close>, which do
  not mean the same. Both have the compressed document \<^verbatim>\<open>x = 1;\<close> (the keyword table
  abbreviates \<^verbatim>\<open>true\<close> to \<^verbatim>\<open>1\<close>), so whatever the decoder, it does not give back
  both.
\<close>

theorem compressDart_round_trip_fails:
  "compressedCode (compressDart ''x = true;'') = ''x = 1;''
   \<and> compressedCode (compressDart ''x = 1;'') = ''x = 1;''
   \<and> \<not> (decode (compressedCode (compressDart ''x = true;'')) = ''x = true;''
        \<and> decode (compressedCode (compressDart ''x = 1;'')) = ''x = 1;'')"
proof -
  have t: "compressedCode (compressDart ''x = true;'') = ''x = 1;''"
    by (simp add: run_passes)
  have n: "compressedCode (compressDart ''x = 1;'') = ''x = 1;''"
    by (simp add: run_passes)
  show ?thesis unfolding t n by simp
qed


text \<open>
  Against C3 as stated: a widget name inside a string literal is replaced, and so is a
  property key there.
\<close>

theorem compressDart_substitutes_in_literal:
  "compressedCode (compressDart ''Text(\"Text body:\")'') = ''T(\"T b:\")''"
  by (simp add: run_passes)

text \<open>
  C7: what the code does on the empty string and on the white space of the repository's
  test. The compressed document is empty in both cases; the savings reported are
  \<^verbatim>\<open>NaN\<close> for the empty string and 100 for the white space, not 0.
\<close>

theorem compressDart_empty_input:
  "compressDart [] =
     \<lparr> compressedCode = [], originalTokens = 0, compressedTokens = 0,
       percentageSaved = NaN, language = ''dart'' \<rparr>
   \<and> compressDart (''   '' @ [CHR 0x0A, CHR 0x09] @ ''  '') =
     \<lparr> compressedCode = [], originalTokens = 2, compressedTokens = 0,
       percentageSaved = Finite 100, language = ''dart'' \<rparr>"
proof -
  have e: "compressedCode (compressDart []) = []"
    by (simp add: run_passes)
  have w: "compressedCode (compressDart (''   '' @ [CHR 0x0A, CHR 0x09] @ ''  '')) = []"
    by (simp add: run_passes)
  have "compressDart code =
     \<lparr> compressedCode = compressedCode (compressDart code),
       originalTokens = estimateTokens code,
       compressedTokens = estimateTokens (compressedCode (compressDart code)),
       percentageSaved =
         percentage (estimateTokens code) (estimateTokens (compressedCode (compressDart code))),
       language = ''dart'' \<rparr>" for code
    by (simp add: compressDart_def Let_def)
  from this [of "[]"] this [of "''   '' @ [CHR 0x0A, CHR 0x09] @ ''  ''"]
  show ?thesis
    unfolding e w by (simp add: estimateTokens_def percentage_def)
qed

section \<open>A word between quotes\<close>

lemma word_not_special:
  "isWord c \<Longrightarrow> \<not> isSpace c \<and> c \<noteq> CHR '':'' \<and> c \<noteq> CHR ''@'' \<and> c \<noteq> CHR 0x22"
  by (auto simp: isWord_def isUpper_def isLower_def isDigit_def inRange_def isSpace_def)

lemma replaceAll_no_match:
  assumes "re prev (c # cs) = None"
  shows "replaceAll re r prev (c # cs) = c # replaceAll re r (Some c) cs"
  using assms by (simp add: replaceAll.simps)

lemma replaceAll_match:
  assumes "re prev (c # cs) = Some n" and "0 < n"
  shows "replaceAll re r prev (c # cs)
         = r @ replaceAll re r (Some (last (take n (c # cs)))) (drop n (c # cs))"
  using assms by (simp add: replaceAll.simps)

lemma wordRegex_no_prefix: "\<not> prefix full s \<Longrightarrow> wordRegex full prev s = None"
  by (simp add: wordRegex_def)

lemma wordRegex_no_boundary: "\<not> boundary prev s \<Longrightarrow> wordRegex full prev s = None"
  by (simp add: wordRegex_def)

lemma boundary_word_word: "isWord p \<Longrightarrow> isWord c \<Longrightarrow> \<not> boundary (Some p) (c # cs)"
  by (simp add: boundary_def wordChar_def headOf_def)

lemma boundary_other_word: "\<not> isWord q \<Longrightarrow> isWord c \<Longrightarrow> boundary (Some q) (c # cs)"
  by (simp add: boundary_def wordChar_def headOf_def)

lemma boundary_word_other: "isWord p \<Longrightarrow> \<not> isWord q \<Longrightarrow> boundary (Some p) (q # cs)"
  by (simp add: boundary_def wordChar_def headOf_def)

lemma replaceAll_word_closing_quote:
  assumes "\<not> isWord q" and "isWord f"
  shows "replaceAll (wordRegex (f # fs)) r prev [q] = [q]"
proof -
  from assms have "\<not> prefix (f # fs) [q]" by auto
  then have "wordRegex (f # fs) prev [q] = None" by (rule wordRegex_no_prefix)
  then have "replaceAll (wordRegex (f # fs)) r prev [q]
             = q # replaceAll (wordRegex (f # fs)) r (Some q) []"
    by (rule replaceAll_no_match [of "wordRegex (f # fs)"])
  then show ?thesis by (simp add: replaceAll_word_Nil)
qed

lemma replaceAll_word_inside:
  assumes "\<not> isWord q" and "isWord f" and "isWord p" and "list_all isWord u"
  shows "replaceAll (wordRegex (f # fs)) r (Some p) (u @ [q]) = u @ [q]"
  using assms(3,4)
proof (induction u arbitrary: p)
  case Nil
  from replaceAll_word_closing_quote [OF assms(1,2)] show ?case by simp
next
  case (Cons c cs)
  then have c: "isWord c" and cs: "list_all isWord cs" by simp_all
  have "wordRegex (f # fs) (Some p) (c # cs @ [q]) = None"
    by (rule wordRegex_no_boundary) (rule boundary_word_word [OF Cons.prems(1) c])
  then have "replaceAll (wordRegex (f # fs)) r (Some p) (c # cs @ [q])
             = c # replaceAll (wordRegex (f # fs)) r (Some c) (cs @ [q])"
    by (rule replaceAll_no_match [of "wordRegex (f # fs)"])
  with Cons.IH [OF c cs] show ?case by simp
qed

lemma replaceAll_word_quoted_tail:
  assumes q: "\<not> isWord q" and key: "list_all isWord (f # fs)" and w: "list_all isWord (c # cs)"
  shows "replaceAll (wordRegex (f # fs)) r (Some q) ((c # cs) @ [q])
         = (if c # cs = f # fs then r @ [q] else (c # cs) @ [q])"
proof (cases "c # cs = f # fs")
  case True
  from key have f: "isWord f" by simp
  have last_word: "isWord (last (f # fs))"
    using key by (metis last_in_set list.distinct(1) list_all_iff)
  have "boundary (Some q) (f # fs @ [q])" by (rule boundary_other_word [OF q f])
  moreover have "boundary (Some (last (f # fs))) [q]" by (rule boundary_word_other [OF last_word q])
  ultimately have m: "wordRegex (f # fs) (Some q) (f # fs @ [q]) = Some (length (f # fs))"
    by (simp add: wordRegex_def)
  have "replaceAll (wordRegex (f # fs)) r (Some q) (f # fs @ [q])
        = r @ replaceAll (wordRegex (f # fs)) r
                (Some (last (take (length (f # fs)) (f # fs @ [q]))))
                (drop (length (f # fs)) (f # fs @ [q]))"
    using replaceAll_match [of "wordRegex (f # fs)" "Some q" f "fs @ [q]" "length (f # fs)" r, OF m]
    by simp
  also have "drop (length (f # fs)) (f # fs @ [q]) = [q]" by simp
  also have "replaceAll (wordRegex (f # fs)) r
               (Some (last (take (length (f # fs)) (f # fs @ [q])))) [q] = [q]"
    by (rule replaceAll_word_closing_quote [OF q f])
  finally have "replaceAll (wordRegex (f # fs)) r (Some q) (f # fs @ [q]) = r @ [q]" .
  then show ?thesis unfolding if_P [OF True] True by simp
next
  case False
  from key have f: "isWord f" and fs: "list_all isWord fs" by simp_all
  from w have c: "isWord c" and cs: "list_all isWord cs" by simp_all
  from key q have qk: "q \<notin> set (f # fs)" by (auto simp: list_all_iff)
  have last_word: "isWord (last (f # fs))"
    using key by (metis last_in_set list.distinct(1) list_all_iff)
  have "wordRegex (f # fs) (Some q) ((c # cs) @ [q]) = None"
  proof (cases "prefix (f # fs) ((c # cs) @ [q])")
    case no: False
    then show ?thesis by (rule wordRegex_no_prefix)
  next
    case True
    with qk have "prefix (f # fs) (c # cs)" by (auto simp: prefix_snoc)
    then obtain t where t: "c # cs = (f # fs) @ t" by (auto simp: prefix_def)
    with False obtain d ds where d: "t = d # ds" by (cases t) auto
    from w t d have "isWord d" by (simp add: list_all_iff)
    then have "\<not> boundary (Some (last (f # fs))) (d # ds @ [q])"
      by (rule boundary_word_word [OF last_word])
    moreover have "drop (length (f # fs)) ((c # cs) @ [q]) = d # ds @ [q]"
      by (simp only: t d) simp
    ultimately show ?thesis by (simp add: wordRegex_def)
  qed
  then have "replaceAll (wordRegex (f # fs)) r (Some q) (c # cs @ [q])
             = c # replaceAll (wordRegex (f # fs)) r (Some c) (cs @ [q])"
    by (simp add: replaceAll_no_match)
  also have "replaceAll (wordRegex (f # fs)) r (Some c) (cs @ [q]) = cs @ [q]"
    by (rule replaceAll_word_inside [OF q f c cs])
  finally have "replaceAll (wordRegex (f # fs)) r (Some q) (c # cs @ [q]) = c # cs @ [q]" .
  then show ?thesis unfolding if_not_P [OF False] by simp
qed

lemma replaceAll_word_quoted:
  assumes q: "\<not> isWord q" and key: "key \<noteq> []" "list_all isWord key"
    and w: "w \<noteq> []" "list_all isWord w"
  shows "replaceAll (wordRegex key) r None (q # w @ [q])
         = (if w = key then q # r @ [q] else q # w @ [q])"
proof -
  from key obtain f fs where k: "key = f # fs" by (cases key) auto
  from w obtain c cs where c: "w = c # cs" by (cases w) auto
  from key(2) k have "isWord f" by simp
  with q have "\<not> prefix (f # fs) (q # w @ [q])" by auto
  then have "wordRegex (f # fs) None (q # w @ [q]) = None" by (rule wordRegex_no_prefix)
  then have "replaceAll (wordRegex key) r None (q # w @ [q])
             = q # replaceAll (wordRegex (f # fs)) r (Some q) ((c # cs) @ [q])"
    by (simp add: k c replaceAll_no_match)
  also have "\<dots> = q # (if c # cs = f # fs then r @ [q] else (c # cs) @ [q])"
    using replaceAll_word_quoted_tail [OF q key(2) [unfolded k] w(2) [unfolded c]] by simp
  finally show ?thesis by (simp add: k c)
qed

text \<open>
  The passes of a table whose keys are words, over a quoted word that is none of the keys,
  and over a quoted word that is one of them.
\<close>

lemma replaceEach_word_quoted_other:
  assumes q: "\<not> isWord q" and w: "w \<noteq> []" "list_all isWord w"
    and keys: "list_all (\<lambda>(k, a). k \<noteq> [] \<and> list_all isWord k) table"
    and other: "w \<notin> fst ` set table"
  shows "replaceEach wordRegex table (q # w @ [q]) = q # w @ [q]"
proof (rule replaceEach_fixed)
  fix full abbrev
  assume e: "(full, abbrev) \<in> set table"
  with keys have k: "full \<noteq> []" "list_all isWord full" by (auto simp: list_all_iff)
  from e other have "w \<noteq> full" by force
  with replaceAll_word_quoted [OF q k w]
  show "replaceAll (wordRegex full) abbrev None (q # w @ [q]) = q # w @ [q]" by simp
qed

lemma replaceEach_word_quoted_key:
  assumes q: "\<not> isWord q"
    and words: "list_all (\<lambda>(k, a). k \<noteq> [] \<and> list_all isWord k \<and> a \<noteq> [] \<and> list_all isWord a) table"
    and fresh: "snd ` set table \<inter> fst ` set table = {}"
    and dist: "distinct (map fst table)"
    and e: "(full, abbrev) \<in> set table"
  shows "replaceEach wordRegex table (q # full @ [q]) = q # abbrev @ [q]"
  using words fresh dist e
proof (induction table)
  case Nil
  then show ?case by simp
next
  case (Cons x table)
  obtain k a where x: "x = (k, a)" by (cases x)
  from Cons.prems(1) x have k: "k \<noteq> []" "list_all isWord k" and a: "a \<noteq> []" "list_all isWord a"
    and rest: "list_all (\<lambda>(k, a). k \<noteq> [] \<and> list_all isWord k \<and> a \<noteq> [] \<and> list_all isWord a) table"
    by simp_all
  then have rest_keys: "list_all (\<lambda>(k, a). k \<noteq> [] \<and> list_all isWord k) table"
    by (auto simp: list_all_iff)
  have unfold: "replaceEach wordRegex (x # table) s
                = replaceEach wordRegex table (replaceAll (wordRegex k) a None s)" for s
    by (simp add: replaceEach_def x)
  show ?case
  proof (cases "full = k")
    case True
    with Cons.prems(3,4) x have "abbrev = a" by (auto simp: image_iff)
    moreover from Cons.prems(2) x have "a \<notin> fst ` set table" by auto
    ultimately show ?thesis
      using True replaceAll_word_quoted [OF q k k, of a]
        replaceEach_word_quoted_other [OF q a rest_keys]
      by (simp add: unfold)
  next
    case False
    with Cons.prems(4) x have e': "(full, abbrev) \<in> set table" by auto
    with rest have f: "full \<noteq> []" "list_all isWord full" by (auto simp: list_all_iff)
    from Cons.prems(2) have "snd ` set table \<inter> fst ` set table = {}" by auto
    moreover from Cons.prems(3) have "distinct (map fst table)" by simp
    ultimately have "replaceEach wordRegex table (q # full @ [q]) = q # abbrev @ [q]"
      using e' by (intro Cons.IH rest)
    with False replaceAll_word_quoted [OF q k f, of a] show ?thesis
      by (simp add: unfold)
  qed
qed

lemma distinct_keys_sorted:
  assumes "distinct (map fst table)"
  shows "distinct (map fst (sortByLengthDesc table))"
proof (rule card_distinct)
  have "set (map fst (sortByLengthDesc table)) = set (map fst table)"
    by (simp add: set_sortByLengthDesc)
  then have "card (set (map fst (sortByLengthDesc table))) = card (set (map fst table))"
    by simp
  also have "\<dots> = length (map fst table)" using assms by (rule distinct_card)
  also have "\<dots> = length (map fst (sortByLengthDesc table))"
    by (simp add: sortByLengthDesc_def)
  finally show "card (set (map fst (sortByLengthDesc table)))
                = length (map fst (sortByLengthDesc table))" .
qed

lemma widget_table_words:
  "list_all (\<lambda>(k, a). k \<noteq> [] \<and> list_all isWord k \<and> a \<noteq> [] \<and> list_all isWord a) DART_WIDGETS"
  by (simp add: DART_WIDGETS_def isWord_def isUpper_def isLower_def isDigit_def inRange_def)

lemma widget_table_fresh: "snd ` set DART_WIDGETS \<inter> fst ` set DART_WIDGETS = {}"
  by (simp add: DART_WIDGETS_def)

lemma widget_table_distinct: "distinct (map fst DART_WIDGETS)"
  by (simp add: DART_WIDGETS_def)

lemma keyword_table_words: "list_all (\<lambda>(k, a). k \<noteq> [] \<and> list_all isWord k) DART_KEYWORDS"
  by (simp add: DART_KEYWORDS_def isWord_def isUpper_def isLower_def isDigit_def inRange_def)

lemma widget_codes_no_keywords: "snd ` set DART_WIDGETS \<inter> fst ` set DART_KEYWORDS = {}"
  by (simp add: DART_WIDGETS_def DART_KEYWORDS_def)

lemma property_keys_colon: "list_all (\<lambda>(k, a). CHR '':'' \<in> set k) DART_PROPERTIES"
  by (simp add: DART_PROPERTIES_def)

text \<open>
  C3, as the code has it. The substitution of \<^verbatim>\<open>compressDart\<close> works on the text, not
  on typed fields: a widget name is replaced wherever it stands as a whole word, also as
  the content of a string literal. For every entry of \<^verbatim>\<open>DART_WIDGETS\<close>, the long form
  between double quotes is compressed to the short form between double quotes.
\<close>

theorem compressDart_substitutes_quoted_widget:
  "\<forall>(full, abbrev) \<in> set DART_WIDGETS.
     compressedCode (compressDart (CHR 0x22 # full @ [CHR 0x22])) = CHR 0x22 # abbrev @ [CHR 0x22]"
proof (intro ballI, clarify)
  fix full abbrev
  assume e: "(full, abbrev) \<in> set DART_WIDGETS"
  let ?q = "CHR 0x22"
  have q: "\<not> isWord ?q"
    by (simp add: isWord_def isUpper_def isLower_def isDigit_def inRange_def)
  from e widget_table_words have full: "full \<noteq> []" "list_all isWord full"
    and abbrev: "abbrev \<noteq> []" "list_all isWord abbrev"
    by (auto simp: list_all_iff)
  have dense: "\<forall>c \<in> set (?q # w @ [?q]). \<not> isSpace c \<and> c \<noteq> CHR '':'' \<and> c \<noteq> CHR ''@''"
    if "list_all isWord w" for w
    using that word_not_special by (auto simp: list_all_iff isSpace_def)
  have sorted_words:
    "list_all (\<lambda>(k, a). k \<noteq> [] \<and> list_all isWord k \<and> a \<noteq> [] \<and> list_all isWord a)
       (sortByLengthDesc DART_WIDGETS)"
    using widget_table_words by (simp add: list_all_iff set_sortByLengthDesc)
  have sorted_fresh:
    "snd ` set (sortByLengthDesc DART_WIDGETS) \<inter> fst ` set (sortByLengthDesc DART_WIDGETS) = {}"
    using widget_table_fresh by (simp add: set_sortByLengthDesc)
  have e': "(full, abbrev) \<in> set (sortByLengthDesc DART_WIDGETS)"
    using e by (simp add: set_sortByLengthDesc)
  have 1: "stripLines (?q # full @ [?q]) = ?q # full @ [?q]"
    using dense [OF full(2)] by (intro stripLines_dense) blast
  have 2: "replaceEach wordRegex (sortByLengthDesc DART_WIDGETS) (?q # full @ [?q])
           = ?q # abbrev @ [?q]"
    by (rule replaceEach_word_quoted_key
          [OF q sorted_words sorted_fresh distinct_keys_sorted [OF widget_table_distinct] e'])
  have 3: "replaceEach literalRegex DART_PROPERTIES (?q # abbrev @ [?q]) = ?q # abbrev @ [?q]"
  proof (rule replaceEach_fixed)
    fix k a
    assume "(k, a) \<in> set DART_PROPERTIES"
    with property_keys_colon have "CHR '':'' \<in> set k" by (auto simp: list_all_iff)
    moreover have "CHR '':'' \<notin> set (?q # abbrev @ [?q])" using dense [OF abbrev(2)] by blast
    ultimately have "\<not> sublist k (?q # abbrev @ [?q])"
      using set_mono_sublist [of k "?q # abbrev @ [?q]"] by blast
    then show "replaceAll (literalRegex k) a None (?q # abbrev @ [?q]) = ?q # abbrev @ [?q]"
      unfolding literalRegex_def by (rule replaceAll_lead_absent)
  qed
  have 4: "replaceEach wordRegex (sortByLengthDesc DART_KEYWORDS) (?q # abbrev @ [?q])
           = ?q # abbrev @ [?q]"
  proof (rule replaceEach_word_quoted_other [OF q abbrev])
    show "list_all (\<lambda>(k, a). k \<noteq> [] \<and> list_all isWord k) (sortByLengthDesc DART_KEYWORDS)"
      using keyword_table_words by (simp add: list_all_iff set_sortByLengthDesc)
    from e widget_codes_no_keywords have "abbrev \<notin> fst ` set DART_KEYWORDS" by force
    then show "abbrev \<notin> fst ` set (sortByLengthDesc DART_KEYWORDS)"
      by (simp add: set_sortByLengthDesc)
  qed
  have 5: "squeeze (?q # abbrev @ [?q]) = ?q # abbrev @ [?q]"
  proof (rule squeeze_dense)
    show "\<forall>c \<in> set (?q # abbrev @ [?q]). \<not> isSpace c" using dense [OF abbrev(2)] by blast
    have "CHR ''@'' \<notin> set (?q # abbrev @ [?q])" using dense [OF abbrev(2)] by blast
    then show "\<not> sublist ''@ov:'' (?q # abbrev @ [?q])"
      using set_mono_sublist [of "''@ov:''" "?q # abbrev @ [?q]"] by auto
  qed
  show "compressedCode (compressDart (?q # full @ [?q])) = ?q # abbrev @ [?q]"
    by (simp only: compressedCode_compressDart 1 2 3 4 5)
qed

theorem compressDart_substitutes_quoted_widget_witness:
  "(''Scaffold'', ''S'') \<in> set DART_WIDGETS
   \<and> compressedCode (compressDart ''\"Scaffold\"'') = ''\"S\"''"
proof -
  have e: "(''Scaffold'', ''S'') \<in> set DART_WIDGETS" by (simp add: DART_WIDGETS_def)
  from compressDart_substitutes_quoted_widget e
  have "case (''Scaffold'', ''S'') of (full, abbrev) \<Rightarrow>
          compressedCode (compressDart (CHR 0x22 # full @ [CHR 0x22])) = CHR 0x22 # abbrev @ [CHR 0x22]"
    by (rule bspec)
  with e show ?thesis by simp
qed

section \<open>The syntax check\<close>

lemma countLoop_counts:
  assumes "countLoop (b, k) s = Some (b', k')" and "0 \<le> b" and "0 \<le> k"
  shows "b' = b + int (occurrences CHR ''{'' s) - int (occurrences CHR ''}'' s)
       \<and> k' = k + int (occurrences CHR ''['' s) - int (occurrences CHR '']'' s)
       \<and> (\<forall>p \<in> set (prefixes s).
            0 \<le> b + int (occurrences CHR ''{'' p) - int (occurrences CHR ''}'' p)
          \<and> 0 \<le> k + int (occurrences CHR ''['' p) - int (occurrences CHR '']'' p))"
  using assms
proof (induction s arbitrary: b k)
  case Nil
  then show ?case by (simp add: occurrences_def)
next
  case (Cons c s)
  let ?b = "(if c = CHR ''{'' then b + 1 else b) - (if c = CHR ''}'' then 1 else 0)"
  let ?k = "(if c = CHR ''['' then k + 1 else k) - (if c = CHR '']'' then 1 else 0)"
  from Cons.prems(1) have nonneg: "0 \<le> ?b" "0 \<le> ?k"
    and rest: "countLoop (?b, ?k) s = Some (b', k')"
    by (auto simp: Let_def split: if_splits)
  note ih = Cons.IH [OF rest nonneg]
  have step: "?b + int (occurrences CHR ''{'' p) - int (occurrences CHR ''}'' p)
              = b + int (occurrences CHR ''{'' (c # p)) - int (occurrences CHR ''}'' (c # p))"
             "?k + int (occurrences CHR ''['' p) - int (occurrences CHR '']'' p)
              = k + int (occurrences CHR ''['' (c # p)) - int (occurrences CHR '']'' (c # p))"
    for p
    by (auto simp: occurrences_def)
  have "0 \<le> b + int (occurrences CHR ''{'' p) - int (occurrences CHR ''}'' p)
      \<and> 0 \<le> k + int (occurrences CHR ''['' p) - int (occurrences CHR '']'' p)"
    if "p \<in> set (prefixes (c # s))" for p
  proof (cases p)
    case Nil
    with Cons.prems show ?thesis by (simp add: occurrences_def)
  next
    case (Cons d q)
    with that have d: "d = c" and q: "q \<in> set (prefixes s)" by (auto simp: in_set_prefixes)
    from ih q have "0 \<le> ?b + int (occurrences CHR ''{'' q) - int (occurrences CHR ''}'' q)
                  \<and> 0 \<le> ?k + int (occurrences CHR ''['' q) - int (occurrences CHR '']'' q)"
      by blast
    then show ?thesis unfolding step [of q] Cons d .
  qed
  moreover from ih have "b' = ?b + int (occurrences CHR ''{'' s) - int (occurrences CHR ''}'' s)"
    and "k' = ?k + int (occurrences CHR ''['' s) - int (occurrences CHR '']'' s)"
    by simp_all
  then have "b' = b + int (occurrences CHR ''{'' (c # s)) - int (occurrences CHR ''}'' (c # s))"
    and "k' = k + int (occurrences CHR ''['' (c # s)) - int (occurrences CHR '']'' (c # s))"
    unfolding step [of s] .
  ultimately show ?case by blast
qed

lemma valid_trim_counts:
  assumes "isValidCoonSyntax code"
  shows "countsBalanced (trim code)"
proof -
  from assms obtain b k where c: "countLoop (0, 0) (trim code) = Some (b, k)"
    by (auto simp: isValidCoonSyntax_def Let_def split: option.splits)
  with assms have z: "b = 0" "k = 0"
    by (auto simp: isValidCoonSyntax_def Let_def split: if_splits)
  from countLoop_counts [OF c] z show ?thesis
    by (auto simp: countsBalanced_def)
qed

lemma trim_decompose:
  "\<exists>a b. code = a @ trim code @ b \<and> (\<forall>c \<in> set a. isSpace c) \<and> (\<forall>c \<in> set b. isSpace c)"
proof -
  let ?a = "takeWhile isSpace code"
  let ?m = "dropWhile isSpace code"
  let ?b = "rev (takeWhile isSpace (rev ?m))"
  have "?m = rev (takeWhile isSpace (rev ?m) @ dropWhile isSpace (rev ?m))" by simp
  also have "\<dots> = rev (dropWhile isSpace (rev ?m)) @ ?b" by (rule rev_append)
  finally have m: "?m = trim code @ ?b" unfolding trim_def .
  have "code = ?a @ ?m" by simp
  also have "\<dots> = ?a @ trim code @ ?b" using m by (rule arg_cong)
  finally have "code = ?a @ trim code @ ?b" .
  moreover have "\<forall>c \<in> set ?a. isSpace c" by (auto dest: set_takeWhileD)
  moreover have "\<forall>c \<in> set ?b. isSpace c" by (auto dest: set_takeWhileD)
  ultimately show ?thesis by blast
qed

lemma occurrences_append: "occurrences c (xs @ ys) = occurrences c xs + occurrences c ys"
  by (simp add: occurrences_def)

lemma occurrences_spaces:
  assumes "\<forall>x \<in> set ws. isSpace x" and "\<not> isSpace c"
  shows "occurrences c ws = 0"
  using assms by (auto simp: occurrences_def filter_empty_conv)

lemma occurrences_prefix_spaces:
  assumes "\<forall>x \<in> set ws. isSpace x" and "\<not> isSpace c" and "prefix p ws"
  shows "occurrences c p = 0"
proof -
  from assms(3) have "set p \<subseteq> set ws" by (auto simp: prefix_def)
  with assms(1) have "\<forall>x \<in> set p. isSpace x" by blast
  then show ?thesis using assms(2) by (rule occurrences_spaces)
qed

lemma brackets_not_space:
  "\<not> isSpace CHR ''{''" "\<not> isSpace CHR ''}''" "\<not> isSpace CHR ''[''" "\<not> isSpace CHR '']''"
  by (simp_all add: isSpace_def)

lemma countsBalanced_padded:
  assumes t: "countsBalanced t" and a: "\<forall>c \<in> set a. isSpace c" and b: "\<forall>c \<in> set b. isSpace c"
  shows "countsBalanced (a @ t @ b)"
proof -
  note za = occurrences_spaces [OF a brackets_not_space(1)] occurrences_spaces [OF a brackets_not_space(2)]
            occurrences_spaces [OF a brackets_not_space(3)] occurrences_spaces [OF a brackets_not_space(4)]
  note zb = occurrences_spaces [OF b brackets_not_space(1)] occurrences_spaces [OF b brackets_not_space(2)]
            occurrences_spaces [OF b brackets_not_space(3)] occurrences_spaces [OF b brackets_not_space(4)]
  have pre: "occurrences CHR ''}'' p \<le> occurrences CHR ''{'' p \<and>
             occurrences CHR '']'' p \<le> occurrences CHR ''['' p"
    if p: "prefix p (a @ t @ b)" for p
  proof -
    from p consider (in_a) "prefix p a"
      | (in_t) q where "p = a @ q" "prefix q t"
      | (in_b) q where "p = a @ t @ q" "prefix q b"
      by (auto simp: prefix_append)
    then show ?thesis
    proof cases
      case in_a
      then show ?thesis
        by (simp add: occurrences_prefix_spaces [OF a brackets_not_space(1)]
              occurrences_prefix_spaces [OF a brackets_not_space(2)]
              occurrences_prefix_spaces [OF a brackets_not_space(3)]
              occurrences_prefix_spaces [OF a brackets_not_space(4)])
    next
      case in_t
      with t have "occurrences CHR ''}'' q \<le> occurrences CHR ''{'' q \<and>
                   occurrences CHR '']'' q \<le> occurrences CHR ''['' q"
        by (simp add: countsBalanced_def in_set_prefixes)
      with in_t za show ?thesis by (simp add: occurrences_append)
    next
      case in_b
      with t za show ?thesis
        by (simp add: occurrences_append countsBalanced_def
              occurrences_prefix_spaces [OF b brackets_not_space(1)]
              occurrences_prefix_spaces [OF b brackets_not_space(2)]
              occurrences_prefix_spaces [OF b brackets_not_space(3)]
              occurrences_prefix_spaces [OF b brackets_not_space(4)])
    qed
  qed
  from t za zb have "occurrences CHR ''{'' (a @ t @ b) = occurrences CHR ''}'' (a @ t @ b)"
    and "occurrences CHR ''['' (a @ t @ b) = occurrences CHR '']'' (a @ t @ b)"
    by (simp_all add: occurrences_append countsBalanced_def)
  with pre show ?thesis by (simp add: countsBalanced_def in_set_prefixes)
qed

text \<open>
  C5, as the code has it. The syntax check answers true or false and nothing else. Every
  document that it accepts has, over all its code units, as many closing as opening braces
  and as many closing as opening square brackets, and no prefix with more closing than
  opening braces or more closing than opening square brackets; the two kinds are counted
  apart. The document \<^verbatim>\<open>S{b\<close> is rejected, by the answer \<open>False\<close>; the answer names no
  cause, and it is also the answer for \<^verbatim>\<open>abc\<close>, in which no brace and no bracket stands.
\<close>

theorem accepted_counts_balanced:
  "(isValidCoonSyntax code \<longrightarrow> countsBalanced code)
   \<and> isValidCoonSyntax ''S{b'' = False
   \<and> isValidCoonSyntax ''abc'' = False"
proof (intro conjI)
  show "isValidCoonSyntax code \<longrightarrow> countsBalanced code"
  proof
    assume v: "isValidCoonSyntax code"
    obtain a b where d: "code = a @ trim code @ b"
      and ab: "\<forall>c \<in> set a. isSpace c" "\<forall>c \<in> set b. isSpace c"
      using trim_decompose by blast
    from countsBalanced_padded [OF valid_trim_counts [OF v] ab] d
    show "countsBalanced code" by simp
  qed
  show "isValidCoonSyntax ''S{b'' = False"
    by (simp add: isValidCoonSyntax_def trim_def isSpace_def)
  show "isValidCoonSyntax ''abc'' = False"
    by (simp add: isValidCoonSyntax_def trim_def isSpace_def startsUpperOrC_def isUpper_def
          inRange_def validPatterns_def widgetPattern_def quotedPattern_def classPattern_def
          barePattern_def)
qed

theorem accepted_counts_balanced_witness:
  "isValidCoonSyntax ''C{h:[T\"1\",T\"2\"]}'' \<and> countsBalanced ''C{h:[T\"1\",T\"2\"]}''"
proof -
  have v: "isValidCoonSyntax ''C{h:[T\"1\",T\"2\"]}''"
    by (simp add: isValidCoonSyntax_def trim_def isSpace_def startsUpperOrC_def isUpper_def
          inRange_def)
  with accepted_counts_balanced [of "''C{h:[T\"1\",T\"2\"]}''"] show ?thesis by simp
qed

text \<open>
  Against C5 as stated: the check accepts documents that are not balanced in the sense of
  the grammar. In \<^verbatim>\<open>S[{]}\<close> the bracket is closed while the brace opened after it is
  open; in \<^verbatim>\<open>S(\<close> the round bracket is never closed; in \<^verbatim>\<open>T"{"}\<close> the opening brace
  is the content of a string literal and the closing brace closes nothing.
\<close>

theorem unbalanced_document_accepted:
  "isValidCoonSyntax ''S[{]}'' \<and> \<not> grammarBalanced ''S[{]}''
   \<and> isValidCoonSyntax ''S('' \<and> \<not> grammarBalanced ''S(''
   \<and> isValidCoonSyntax ''T\"{\"}'' \<and> \<not> grammarBalanced ''T\"{\"}''"
  by (simp add: isValidCoonSyntax_def trim_def isSpace_def startsUpperOrC_def isUpper_def
        inRange_def grammarBalanced_def opener_def)

text \<open>
  The grammar's notion on two documents of the specification: the widget with a property
  list is balanced, the unterminated \<^verbatim>\<open>S{b\<close> is not.
\<close>

lemma grammarBalanced_examples:
  "grammarBalanced ''C{h:[T\"1\",T\"2\"]}''" "\<not> grammarBalanced ''S{b''"
  by (simp_all add: grammarBalanced_def opener_def)

lemma countLoop_plain:
  assumes "\<forall>x \<in> set xs. plain x" and "0 \<le> b" and "0 \<le> k"
  shows "countLoop (b, k) (xs @ ys) = countLoop (b, k) ys"
  using assms by (induction xs) (auto simp: plain_def)

lemma letters_plain: "isUpper c \<or> isLower c \<Longrightarrow> plain c \<and> \<not> isSpace c \<and> c \<noteq> CHR '';'' \<and> c \<noteq> CHR 0x0A"
  by (auto simp: isUpper_def isLower_def inRange_def plain_def isSpace_def)

text \<open>
  C6, as the code has it. The syntax check does not look a short code up in any table: it
  accepts every document that consists of a capital letter, lower-case letters and
  \<^verbatim>\<open>{}\<close>, whether or not the code before the braces is a registered abbreviation.
\<close>

theorem unregistered_code_accepted:
  assumes "isUpper c" and "\<forall>x \<in> set ls. isLower x"
  shows "isValidCoonSyntax (c # ls @ ''{}'')"
proof -
  let ?doc = "c # ls @ ''{}''"
  from assms(1) letters_plain [of c] have c: "plain c" "\<not> isSpace c" "c \<noteq> CHR '';''" "c \<noteq> CHR 0x0A"
    by simp_all
  from assms(2) letters_plain have ls: "\<forall>x \<in> set ls. plain x \<and> x \<noteq> CHR '';'' \<and> x \<noteq> CHR 0x0A"
    by blast
  have "trim ?doc = ?doc" using c(2) by (simp add: trim_def isSpace_def)
  moreover have "countLoop (0, 0) ?doc = Some (0, 0)"
    using countLoop_plain [of "c # ls" 0 0 "''{}''"] c(1) ls by simp
  moreover have "startsUpperOrC ?doc" using assms(1) by (simp add: startsUpperOrC_def)
  ultimately show ?thesis by (simp add: isValidCoonSyntax_def Let_def)
qed

theorem unregistered_code_accepted_witness:
  "isUpper CHR ''Z'' \<and> list_all isLower ''z'' \<and> isValidCoonSyntax ''Zz{}''"
proof -
  have u: "isUpper CHR ''Z''" by (simp add: isUpper_def inRange_def)
  have l: "\<forall>x \<in> set ''z''. isLower x" by (simp add: isLower_def inRange_def)
  from unregistered_code_accepted [OF u l] u l show ?thesis by simp
qed

text \<open>
  Against C6 as stated: \<^verbatim>\<open>Q\<close> is no short code of \<^verbatim>\<open>WIDGET_ABBREVIATIONS\<close> and no
  short form of \<^verbatim>\<open>DART_WIDGETS\<close>, and the document \<^verbatim>\<open>Q{}\<close> is accepted.
\<close>

theorem unknown_short_code_accepted:
  "widgetAbbreviation ''Q'' = None \<and> ''Q'' \<notin> snd ` set DART_WIDGETS \<and> isValidCoonSyntax ''Q{}''"
proof -
  have "widgetAbbreviation ''Q'' = None"
    by (simp add: widgetAbbreviation_def WIDGET_ABBREVIATIONS_def)
  moreover have "''Q'' \<notin> snd ` set DART_WIDGETS"
    by (simp add: DART_WIDGETS_def)
  moreover have "isValidCoonSyntax ''Q{}''"
    by (simp add: isValidCoonSyntax_def trim_def isSpace_def startsUpperOrC_def isUpper_def
          inRange_def)
  ultimately show ?thesis by simp
qed

section \<open>The generator module\<close>







text \<open>
  The module alone does not make the results of two equal calls equal. With a
  \<^verbatim>\<open>compress\<close> that counts its calls and returns the count, the second of two equal
  calls of \<^verbatim>\<open>compressToCoon\<close> returns another text than the first.
\<close>

lemma counting_compressor_history:
  "fst (compressToCoon
          \<lparr> componentRef = (), construct = (\<lambda>s l. Pair ()),
            compressWith = (\<lambda>obj code s n. (n, Suc n)),
            codeOf = (\<lambda>n. replicate n CHR ''x'') \<rparr> ''a''
          (snd (compressToCoon
            \<lparr> componentRef = (), construct = (\<lambda>s l. Pair ()),
              compressWith = (\<lambda>obj code s n. (n, Suc n)),
              codeOf = (\<lambda>n. replicate n CHR ''x'') \<rparr> ''a'' (None, 0))))
   \<noteq> fst (compressToCoon
          \<lparr> componentRef = (), construct = (\<lambda>s l. Pair ()),
            compressWith = (\<lambda>obj code s n. (n, Suc n)),
            codeOf = (\<lambda>n. replicate n CHR ''x'') \<rparr> ''a'' (None, 0))"
  by (simp add: compressToCoon_def getCompressor_def)

end
